theory Spec2Isabelle
  imports Main
begin

section \<open>The auto-complete custom element: data model\<close>

text \<open>
  The development embeds \<^verbatim>\<open>src/auto-complete-element.ts\<close>. DOM elements, engine
  instances and abort controllers are objects with identity; each is named by a natural
  number. \<^verbatim>\<open>null\<close> and \<^verbatim>\<open>undefined\<close> are \<open>None\<close>.
\<close>

type_synonym elem = nat
type_synonym engine_id = nat
type_synonym controller = nat

datatype error = Error string | TypeError string | AbortError

text \<open>The outcome of a synchronous method: it returns, or it throws after its effects.\<close>

datatype completion = Normal | Throws error

text \<open>
  What \<^verbatim>\<open>getRootNode()\<close> can return: a document, a shadow root, or the top of a
  detached tree.
\<close>

datatype node = Document nat | ShadowRoot nat | DetachedRoot nat

text \<open>
  The lookups of the platform the element reads and never writes: connectivity, the root
  of an element, id lookup below a root, and the first match of a selector below an
  element.
\<close>

record dom =
  isConnected :: "elem \<Rightarrow> bool"
  getRootNode :: "elem \<Rightarrow> node"
  getElementById :: "node \<Rightarrow> string \<Rightarrow> elem option"
  querySelector :: "elem \<Rightarrow> string \<Rightarrow> elem option"

text \<open>The private fields of one \<^verbatim>\<open>AutoCompleteElement\<close> instance, with their initialisers.\<close>

record private_fields =
  priv_forElement :: "elem option"
  priv_inputElement :: "elem option"
  priv_hiddenInputElement :: "elem option"
  priv_requestController :: "controller option"

definition initial_fields :: private_fields where
  "initial_fields =
     \<lparr>priv_forElement = None, priv_inputElement = None, priv_hiddenInputElement = None,
      priv_requestController = None\<rparr>"

text \<open>
  Modelled from the spec: the engine class \<^verbatim>\<open>Autocomplete\<close> of \<^verbatim>\<open>./autocomplete.js\<close>
  is not among the sources. The spec gives its interface: it is constructed with
  (host, input, hiddenInput-or-absent, forTarget, autoselectFlag), has readable
  \<^verbatim>\<open>input\<close>, \<^verbatim>\<open>hiddenInput\<close> and \<^verbatim>\<open>results\<close> fields, and the operations
  \<^verbatim>\<open>open()\<close>, \<^verbatim>\<open>close()\<close> and \<^verbatim>\<open>destroy()\<close>. An instance is live until destroyed.
\<close>

record autocomplete =
  container :: elem
  input :: elem
  hiddenInput :: "elem option"
  results :: elem
  autoselectEnabled :: bool
  destroyed :: bool

record autoCompleteEvent =
  event_type :: string
  bubbles :: bool
  relatedTarget :: elem

text \<open>
  The effects on collaborators, in the order they happen: engine construction and
  commands, writes of an input's \<^verbatim>\<open>value\<close> property, dispatched events, and the calls
  of the request controller.
\<close>

datatype event =
    Constructed engine_id elem
  | Destroyed engine_id
  | Opened engine_id
  | Closed engine_id
  | ValueWritten elem string
  | Dispatched elem autoCompleteEvent
  | Aborted controller
  | FetchCalled elem string controller "(string \<times> string) list"

text \<open>
  A response of the network: its status and what \<^verbatim>\<open>text()\<close> settles with. The
  platform's \<^verbatim>\<open>ok\<close> is true exactly for the statuses 200 to 299.
\<close>

record response =
  status :: nat
  body :: "error + string"

definition ok :: "response \<Rightarrow> bool" where
  "ok res = (200 \<le> status res \<and> status res \<le> 299)"

text \<open>
  \<^verbatim>\<open>CSPTrustedHTMLToStringable\<close>: a plain string, or an object of the policy that
  converts to the given text.
\<close>

datatype stringable = PlainString string | TrustedHTML string

fun toString :: "stringable \<Rightarrow> string" where
  "toString (PlainString s) = s"
| "toString (TrustedHTML s) = s"

text \<open>\<^verbatim>\<open>CSPTrustedTypesPolicy\<close>; the conversion may throw.\<close>

record cspTrustedTypesPolicy =
  createHTML :: "string \<Rightarrow> response \<Rightarrow> error + stringable"

text \<open>
  A promise is modelled by how it settles, if it ever does. A value that may be given
  directly or as a promise is an \<open>awaitable\<close>; \<^verbatim>\<open>Promise.resolve\<close> turns it into a
  promise.
\<close>

datatype 'a promise = Fulfilled 'a | Rejected error | Unsettled

datatype 'a awaitable = Direct 'a | Deferred "'a promise"

fun Promise_resolve :: "'a awaitable \<Rightarrow> 'a promise" where
  "Promise_resolve (Direct x) = Fulfilled x"
| "Promise_resolve (Deferred p) = p"

text \<open>
  The world: the platform lookups, the attribute store, the private fields of every
  element, the module-level \<^verbatim>\<open>state\<close> WeakMap from host to engine, the engine objects
  allocated so far (an engine's identity is its index), the module-level sanitizer policy
  promise, the number of abort controllers allocated so far, and the trace of effects.
\<close>

record world =
  dom :: dom
  attributes :: "elem \<Rightarrow> string \<rightharpoonup> string"
  privates :: "elem \<Rightarrow> private_fields"
  state :: "elem \<rightharpoonup> engine_id"
  engines :: "autocomplete list"
  cspTrustedTypesPolicyPromise :: "cspTrustedTypesPolicy promise option"
  controllers :: nat
  trace :: "event list"

definition emit :: "event \<Rightarrow> world \<Rightarrow> world" where
  "emit e w = w\<lparr>trace := trace w @ [e]\<rparr>"

section \<open>Attribute access and the property getters\<close>

definition getAttribute :: "elem \<Rightarrow> string \<Rightarrow> world \<Rightarrow> string option" where
  "getAttribute this name w = attributes w this name"

text \<open>
  \<^verbatim>\<open>a || ''\<close> on a string-or-null: the empty string when \<^verbatim>\<open>a\<close> is falsy (null or
  empty), \<^verbatim>\<open>a\<close> otherwise.
\<close>

definition or_empty :: "string option \<Rightarrow> string" where
  "or_empty a = (case a of None \<Rightarrow> [] | Some s \<Rightarrow> if s = [] then [] else s)"

definition get_src :: "elem \<Rightarrow> world \<Rightarrow> string" where
  "get_src this w = or_empty (getAttribute this ''src'' w)"

definition get_value :: "elem \<Rightarrow> world \<Rightarrow> string" where
  "get_value this w = or_empty (getAttribute this ''value'' w)"

definition get_dataValue :: "elem \<Rightarrow> world \<Rightarrow> string" where
  "get_dataValue this w = or_empty (getAttribute this ''data-value'' w)"

section \<open>The element binding resolver\<close>

text \<open>\<^verbatim>\<open>ref?.isConnected\<close>: an assigned reference that is still connected.\<close>

definition connected_ref :: "world \<Rightarrow> elem option \<Rightarrow> bool" where
  "connected_ref w r = (case r of None \<Rightarrow> False | Some e \<Rightarrow> isConnected (dom w) e)"

definition forElement :: "elem \<Rightarrow> world \<Rightarrow> elem option" where
  "forElement this w =
     (if connected_ref w (priv_forElement (privates w this)) then priv_forElement (privates w this)
      else
        (case getAttribute this ''for'' w of
           None \<Rightarrow> None
         | Some ident \<Rightarrow>
             if ident = [] then None
             else
               (case getRootNode (dom w) this of
                  Document d \<Rightarrow> getElementById (dom w) (Document d) ident
                | ShadowRoot s \<Rightarrow> getElementById (dom w) (ShadowRoot s) ident
                | DetachedRoot r \<Rightarrow> None)))"

definition inputElement :: "elem \<Rightarrow> world \<Rightarrow> elem option" where
  "inputElement this w =
     (if connected_ref w (priv_inputElement (privates w this))
      then priv_inputElement (privates w this)
      else querySelector (dom w) this ''input'')"

definition hiddenInputElement :: "elem \<Rightarrow> world \<Rightarrow> elem option" where
  "hiddenInputElement this w =
     (if connected_ref w (priv_hiddenInputElement (privates w this))
      then priv_hiddenInputElement (privates w this)
      else querySelector (dom w) this ''input[type='hidden']'')"

section \<open>The engine lifecycle manager\<close>

text \<open>
  Modelled from the spec: \<^verbatim>\<open>destroy()\<close> of the absent engine class releases the engine;
  the instance is no longer live. The call is recorded in the trace.
\<close>

definition destroy :: "engine_id \<Rightarrow> world \<Rightarrow> world" where
  "destroy a w =
     emit (Destroyed a)
       (w\<lparr>engines := (engines w)[a := (engines w ! a)\<lparr>destroyed := True\<rparr>]\<rparr>)"

text \<open>
  Modelled from the spec: \<^verbatim>\<open>new Autocomplete(host, input, hiddenInput, results,
  autoselect)\<close> allocates a fresh live engine holding its arguments.
\<close>

definition new_Autocomplete ::
  "elem \<Rightarrow> elem \<Rightarrow> elem option \<Rightarrow> elem \<Rightarrow> bool \<Rightarrow> world \<Rightarrow> engine_id \<times> world" where
  "new_Autocomplete host inp hid res autosel w =
     (length (engines w),
      emit (Constructed (length (engines w)) host)
        (w\<lparr>engines := engines w @
             [\<lparr>container = host, input = inp, hiddenInput = hid, results = res,
               autoselectEnabled = autosel, destroyed = False\<rparr>]\<rparr>))"

text \<open>The write of the attribute store alone; \<^verbatim>\<open>role\<close> is not an observed attribute.\<close>

definition store_attribute :: "elem \<Rightarrow> string \<Rightarrow> string \<Rightarrow> world \<Rightarrow> world" where
  "store_attribute e name v w = w\<lparr>attributes := (attributes w)(e := (attributes w e)(name \<mapsto> v))\<rparr>"

text \<open>The first statement of \<^verbatim>\<open>#reattachState\<close>: \<^verbatim>\<open>state.get(this)?.destroy()\<close>.\<close>

definition destroy_current :: "elem \<Rightarrow> world \<Rightarrow> world" where
  "destroy_current this w = (case state w this of None \<Rightarrow> w | Some a \<Rightarrow> destroy a w)"

definition reattachState :: "elem \<Rightarrow> world \<Rightarrow> world" where
  "reattachState this w =
     (let w1 = destroy_current this w in
      case forElement this w1 of
        None \<Rightarrow> w1
      | Some f \<Rightarrow>
          (case inputElement this w1 of
             None \<Rightarrow> w1
           | Some i \<Rightarrow>
               (let autosel = (getAttribute this ''data-autoselect'' w1 = Some ''true'');
                    (a, w2) = new_Autocomplete this i (hiddenInputElement this w1) f autosel w1;
                    w3 = w2\<lparr>state := (state w2)(this \<mapsto> a)\<rparr>
                in store_attribute f ''role'' ''listbox'' w3)))"

definition connectedCallback :: "elem \<Rightarrow> world \<Rightarrow> world" where
  "connectedCallback this w =
     (if \<not> isConnected (dom w) this then w else reattachState this w)"

definition disconnectedCallback :: "elem \<Rightarrow> world \<Rightarrow> world" where
  "disconnectedCallback this w =
     (case state w this of
        None \<Rightarrow> w
      | Some a \<Rightarrow> (let w1 = destroy a w in w1\<lparr>state := (state w1)(this := None)\<rparr>))"

definition set_inputElement :: "elem \<Rightarrow> elem option \<Rightarrow> world \<Rightarrow> world" where
  "set_inputElement this inp w =
     reattachState this
       (w\<lparr>privates := (privates w)(this := (privates w this)\<lparr>priv_inputElement := inp\<rparr>)\<rparr>)"

definition set_hiddenInputElement :: "elem \<Rightarrow> elem option \<Rightarrow> world \<Rightarrow> world" where
  "set_hiddenInputElement this inp w =
     reattachState this
       (w\<lparr>privates := (privates w)(this := (privates w this)\<lparr>priv_hiddenInputElement := inp\<rparr>)\<rparr>)"

section \<open>The attribute reaction dispatcher\<close>

definition observedAttributes :: "string list" where
  "observedAttributes = [''open'', ''value'', ''for'', ''data-value'']"

text \<open>
  Assigning to an input's \<^verbatim>\<open>value\<close> property; the platform turns \<^verbatim>\<open>null\<close> into the
  empty string. Assigning through an absent hidden input throws a \<^verbatim>\<open>TypeError\<close>.
\<close>

definition null_to_empty :: "string option \<Rightarrow> string" where
  "null_to_empty v = (case v of None \<Rightarrow> [] | Some s \<Rightarrow> s)"

definition attributeChangedCallback ::
  "elem \<Rightarrow> string \<Rightarrow> string option \<Rightarrow> string option \<Rightarrow> world \<Rightarrow> completion \<times> world" where
  "attributeChangedCallback this name oldValue newValue w =
     (if oldValue = newValue then (Normal, w)
      else
        (case state w this of
           None \<Rightarrow> (Normal, w)
         | Some a \<Rightarrow>
             (let w1 =
                (if forElement this w \<noteq> Some (results (engines w ! a)) \<or>
                    inputElement this w \<noteq> Some (input (engines w ! a))
                 then reattachState this w else w);
                  autocomplete = engines w1 ! a
              in
                if name = ''open'' then
                  (Normal, emit (if newValue = None then Closed a else Opened a) w1)
                else if name = ''data-value'' then
                  (case hiddenInput autocomplete of
                     None \<Rightarrow> (Throws (TypeError ''hiddenInput is null''), w1)
                   | Some h \<Rightarrow> (Normal, emit (ValueWritten h (null_to_empty newValue)) w1))
                else if name = ''value'' then
                  (let w2 =
                     (case newValue of
                        None \<Rightarrow> w1
                      | Some v \<Rightarrow> emit (ValueWritten (input autocomplete) v) w1)
                   in (Normal,
                       emit (Dispatched this
                          \<lparr>event_type = ''auto-complete-change'', bubbles = True,
                           relatedTarget = input autocomplete\<rparr>) w2))
                else (Normal, w1))))"

text \<open>
  \<^verbatim>\<open>setAttribute\<close> on a host: the platform stores the value and, for an observed name,
  runs the attribute reaction with the old and the new value; an exception of the
  reaction is reported, not propagated.
\<close>

definition setAttribute :: "elem \<Rightarrow> string \<Rightarrow> string \<Rightarrow> world \<Rightarrow> world" where
  "setAttribute this name v w =
     (let old = getAttribute this name w; w1 = store_attribute this name v w
      in if name \<in> set observedAttributes
         then snd (attributeChangedCallback this name old (Some v) w1) else w1)"

definition set_forElement :: "elem \<Rightarrow> elem option \<Rightarrow> world \<Rightarrow> world" where
  "set_forElement this element w =
     setAttribute this ''for'' []
       (w\<lparr>privates := (privates w)(this := (privates w this)\<lparr>priv_forElement := element\<rparr>)\<rparr>)"

section \<open>The sanitizer policy resolver and the request controller\<close>

definition setCSPTrustedTypesPolicy ::
  "cspTrustedTypesPolicy awaitable option \<Rightarrow> world \<Rightarrow> world" where
  "setCSPTrustedTypesPolicy policy w =
     w\<lparr>cspTrustedTypesPolicyPromise :=
          (case policy of None \<Rightarrow> None | Some p \<Rightarrow> Some (Promise_resolve p))\<rparr>"

text \<open>
  \<^verbatim>\<open>fetchResult\<close> is an async function. A call in flight is suspended at one of its
  \<^verbatim>\<open>await\<close>s, holding the locals it has bound so far, or it has settled:
  \<^item> \<open>AwaitFetch c\<close>: at \<^verbatim>\<open>await fetch(...)\<close>, with the signal of controller \<open>c\<close>;
  \<^item> \<open>AwaitErrorText res\<close>: at \<^verbatim>\<open>await res.text()\<close> of the non-ok branch;
  \<^item> \<open>AwaitPolicy res p\<close>: at \<^verbatim>\<open>await cspTrustedTypesPolicyPromise\<close>, \<open>p\<close> being the
    promise read from the variable;
  \<^item> \<open>AwaitPolicyText res pol\<close>: at \<^verbatim>\<open>await res.text()\<close> inside the call of
    \<^verbatim>\<open>createHTML\<close>;
  \<^item> \<open>AwaitText res\<close>: at the final \<^verbatim>\<open>await res.text()\<close>.
\<close>

datatype suspended =
    AwaitFetch controller
  | AwaitErrorText response
  | AwaitPolicy response "cspTrustedTypesPolicy promise"
  | AwaitPolicyText response cspTrustedTypesPolicy
  | AwaitText response
  | Settled "error + stringable"

text \<open>
  The synchronous part of \<^verbatim>\<open>fetchResult\<close>, up to its first \<^verbatim>\<open>await\<close>: abort the
  previous controller, allocate a new one, call \<^verbatim>\<open>fetch\<close> with its signal.
\<close>

definition fetchResult :: "elem \<Rightarrow> string \<Rightarrow> world \<Rightarrow> suspended \<times> world" where
  "fetchResult this url w =
     (let w1 = (case priv_requestController (privates w this) of
                  None \<Rightarrow> w
                | Some c \<Rightarrow> emit (Aborted c) w);
          c = controllers w1;
          w2 = w1\<lparr>controllers := Suc c,
                  privates := (privates w1)
                    (this := (privates w1 this)\<lparr>priv_requestController := Some c\<rparr>)\<rparr>
      in (AwaitFetch c,
          emit (FetchCalled this url c [(''Accept'', ''text/fragment+html'')]) w2))"

text \<open>
  The part that runs when the fetch settles, up to the next \<^verbatim>\<open>await\<close>: a rejection
  propagates; otherwise \<^verbatim>\<open>res.ok\<close> is tested, and on success the module-level policy
  variable is read.
\<close>

definition after_fetch :: "(error + response) \<Rightarrow> world \<Rightarrow> suspended" where
  "after_fetch r w =
     (case r of
        Inl e \<Rightarrow> Settled (Inl e)
      | Inr res \<Rightarrow>
          if \<not> ok res then AwaitErrorText res
          else
            (case cspTrustedTypesPolicyPromise w of
               Some p \<Rightarrow> AwaitPolicy res p
             | None \<Rightarrow> AwaitText res))"

text \<open>
  The part that runs when the awaited promise of a later \<^verbatim>\<open>await\<close> settles. A call
  awaiting a promise that never settles stays suspended; a call awaiting the network is
  resumed by the network only.
\<close>

fun resume :: "suspended \<Rightarrow> suspended" where
  "resume (AwaitFetch c) = AwaitFetch c"
| "resume (AwaitErrorText res) =
     (case body res of Inl e \<Rightarrow> Settled (Inl e) | Inr t \<Rightarrow> Settled (Inl (Error t)))"
| "resume (AwaitPolicy res p) =
     (case p of
        Fulfilled pol \<Rightarrow> AwaitPolicyText res pol
      | Rejected e \<Rightarrow> Settled (Inl e)
      | Unsettled \<Rightarrow> AwaitPolicy res p)"
| "resume (AwaitPolicyText res pol) =
     (case body res of Inl e \<Rightarrow> Settled (Inl e) | Inr t \<Rightarrow> Settled (createHTML pol t res))"
| "resume (AwaitText res) =
     (case body res of Inl e \<Rightarrow> Settled (Inl e) | Inr t \<Rightarrow> Settled (Inr (PlainString t)))"
| "resume (Settled x) = Settled x"

text \<open>
  What the event loop can do while one call is in flight: some code replaces the policy,
  the network settles the call's fetch, or the call's awaited promise settles.
\<close>

datatype tick =
    SetPolicy "cspTrustedTypesPolicy awaitable option"
  | FetchSettles "error + response"
  | Resume

fun is_SetPolicy :: "tick \<Rightarrow> bool" where
  "is_SetPolicy (SetPolicy p) = True"
| "is_SetPolicy t = False"

fun is_FetchSettles :: "tick \<Rightarrow> bool" where
  "is_FetchSettles (FetchSettles r) = True"
| "is_FetchSettles t = False"

fun is_Resume :: "tick \<Rightarrow> bool" where
  "is_Resume Resume = True"
| "is_Resume t = False"

fun awaits_fetch :: "suspended \<Rightarrow> bool" where
  "awaits_fetch (AwaitFetch c) = True"
| "awaits_fetch k = False"

fun step :: "tick \<Rightarrow> suspended \<times> world \<Rightarrow> suspended \<times> world" where
  "step (SetPolicy p) (k, w) = (k, setCSPTrustedTypesPolicy p w)"
| "step (FetchSettles r) (k, w) = ((if awaits_fetch k then after_fetch r w else k), w)"
| "step Resume (k, w) = (resume k, w)"

fun run_ticks :: "tick list \<Rightarrow> suspended \<times> world \<Rightarrow> suspended \<times> world" where
  "run_ticks [] kw = kw"
| "run_ticks (t # ts) kw = run_ticks ts (step t kw)"

section \<open>Sequences of callbacks\<close>

text \<open>
  What can happen to the page, one after the other: the platform runs a lifecycle or
  attribute callback of a host, a script assigns one of the binding properties, starts a
  fetch or replaces the policy, or the document changes under the element (any new
  lookups and attribute store).
\<close>

datatype action =
    Connected elem
  | Disconnected elem
  | AttributeChanged elem string "string option" "string option"
  | SetInputElement elem "elem option"
  | SetHiddenInputElement elem "elem option"
  | SetForElement elem "elem option"
  | FetchResult elem string
  | SetCSPTrustedTypesPolicy "cspTrustedTypesPolicy awaitable option"
  | DocumentChanged dom "elem \<Rightarrow> string \<rightharpoonup> string"

fun perform :: "action \<Rightarrow> world \<Rightarrow> world" where
  "perform (Connected h) w = connectedCallback h w"
| "perform (Disconnected h) w = disconnectedCallback h w"
| "perform (AttributeChanged h name oldValue newValue) w =
     snd (attributeChangedCallback h name oldValue newValue w)"
| "perform (SetInputElement h e) w = set_inputElement h e w"
| "perform (SetHiddenInputElement h e) w = set_hiddenInputElement h e w"
| "perform (SetForElement h e) w = set_forElement h e w"
| "perform (FetchResult h url) w = snd (fetchResult h url w)"
| "perform (SetCSPTrustedTypesPolicy p) w = setCSPTrustedTypesPolicy p w"
| "perform (DocumentChanged d attrs) w = w\<lparr>dom := d, attributes := attrs\<rparr>"

fun run :: "action list \<Rightarrow> world \<Rightarrow> world" where
  "run [] w = w"
| "run (a # as) w = run as (perform a w)"

text \<open>The world when the module has been loaded: nothing allocated, nothing recorded.\<close>

definition initial_world :: "dom \<Rightarrow> (elem \<Rightarrow> string \<rightharpoonup> string) \<Rightarrow> world" where
  "initial_world d attrs =
     \<lparr>dom = d, attributes = attrs, privates = (\<lambda>e. initial_fields), state = Map.empty,
      engines = [], cspTrustedTypesPolicyPromise = None, controllers = 0, trace = []\<rparr>"

section \<open>Reading the trace\<close>

text \<open>
  The engines that are live after a trace, each with its host: those constructed and not
  destroyed since.
\<close>

fun live_step :: "(engine_id \<times> elem) list \<Rightarrow> event \<Rightarrow> (engine_id \<times> elem) list" where
  "live_step L (Constructed a h) = L @ [(a, h)]"
| "live_step L (Destroyed a) = filter (\<lambda>p. fst p \<noteq> a) L"
| "live_step L e = L"

definition live_engines :: "event list \<Rightarrow> (engine_id \<times> elem) list" where
  "live_engines tr = foldl live_step [] tr"

definition live_for :: "elem \<Rightarrow> event list \<Rightarrow> engine_id list" where
  "live_for h tr = map fst (filter (\<lambda>p. snd p = h) (live_engines tr))"

text \<open>
  At most one live engine per host at every point of a trace, that is, after each of its
  prefixes.
\<close>

definition one_engine_throughout :: "event list \<Rightarrow> bool" where
  "one_engine_throughout tr = (\<forall>n h. length (live_for h (take n tr)) \<le> 1)"

text \<open>
  The requests that are current after a trace, each with its host: those started and
  not aborted since.
\<close>

fun current_step :: "(controller \<times> elem) list \<Rightarrow> event \<Rightarrow> (controller \<times> elem) list" where
  "current_step L (FetchCalled h url c hs) = L @ [(c, h)]"
| "current_step L (Aborted c) = filter (\<lambda>p. fst p \<noteq> c) L"
| "current_step L e = L"

definition current_requests :: "event list \<Rightarrow> (controller \<times> elem) list" where
  "current_requests tr = foldl current_step [] tr"

definition current_for :: "elem \<Rightarrow> event list \<Rightarrow> controller list" where
  "current_for h tr = map fst (filter (\<lambda>p. snd p = h) (current_requests tr))"

definition one_request_throughout :: "event list \<Rightarrow> bool" where
  "one_request_throughout tr = (\<forall>n h. length (current_for h (take n tr)) \<le> 1)"

text \<open>The writes of input values and the change notifications of a trace, in order.\<close>

fun is_value_write :: "event \<Rightarrow> bool" where
  "is_value_write (ValueWritten e v) = True"
| "is_value_write e = False"

fun is_notification :: "event \<Rightarrow> bool" where
  "is_notification (Dispatched h ev) = True"
| "is_notification e = False"

fun is_lifecycle :: "event \<Rightarrow> bool" where
  "is_lifecycle (Constructed a h) = True"
| "is_lifecycle (Destroyed a) = True"
| "is_lifecycle e = False"

definition value_writes :: "event list \<Rightarrow> event list" where
  "value_writes tr = filter is_value_write tr"

definition notifications :: "event list \<Rightarrow> event list" where
  "notifications tr = filter is_notification tr"

section \<open>Descriptions used in the statements and proofs\<close>

text \<open>Both bindings an engine needs resolve.\<close>

definition resolved :: "elem \<Rightarrow> world \<Rightarrow> bool" where
  "resolved this w = (forElement this w \<noteq> None \<and> inputElement this w \<noteq> None)"

text \<open>What \<^verbatim>\<open>#reattachState\<close> adds to the trace: first the teardown, then the build.\<close>

definition teardown_events :: "elem \<Rightarrow> world \<Rightarrow> event list" where
  "teardown_events this w = (case state w this of None \<Rightarrow> [] | Some a \<Rightarrow> [Destroyed a])"

definition build_events :: "elem \<Rightarrow> world \<Rightarrow> event list" where
  "build_events this w =
     (if resolved this w then [Constructed (length (engines w)) this] else [])"

text \<open>
  The rebind check of the attribute reaction, \<open>a\<close> being the engine the reaction read
  from the WeakMap.
\<close>

definition rebind :: "elem \<Rightarrow> engine_id \<Rightarrow> world \<Rightarrow> world" where
  "rebind this a w =
     (if forElement this w \<noteq> Some (results (engines w ! a)) \<or>
         inputElement this w \<noteq> Some (input (engines w ! a))
      then reattachState this w else w)"

definition change_event :: "elem \<Rightarrow> elem \<Rightarrow> event" where
  "change_event this inp =
     Dispatched this
       \<lparr>event_type = ''auto-complete-change'', bubbles = True, relatedTarget = inp\<rparr>"

text \<open>What the switch of the attribute reaction adds to the trace, for engine \<open>a\<close>.\<close>

definition command_events ::
  "elem \<Rightarrow> string \<Rightarrow> string option \<Rightarrow> engine_id \<Rightarrow> autocomplete \<Rightarrow> event list" where
  "command_events this name newValue a eng =
     (if name = ''open'' then [if newValue = None then Closed a else Opened a]
      else if name = ''data-value'' then
        (case hiddenInput eng of
           None \<Rightarrow> []
         | Some h \<Rightarrow> [ValueWritten h (null_to_empty newValue)])
      else if name = ''value'' then
        (case newValue of None \<Rightarrow> [] | Some v \<Rightarrow> [ValueWritten (input eng) v]) @
        [change_event this (input eng)]
      else [])"

fun is_request :: "event \<Rightarrow> bool" where
  "is_request (Aborted c) = True"
| "is_request (FetchCalled h url c hs) = True"
| "is_request e = False"

text \<open>
  The invariants behind the two at-most-one properties. A list of (object, host) pairs
  is \<open>owned\<close> when each object is the one its host currently refers to, all objects
  have been allocated, and no object occurs twice.
\<close>

definition at_most_one_each :: "(nat \<times> elem) list \<Rightarrow> bool" where
  "at_most_one_each L = (\<forall>h. length (filter (\<lambda>p. snd p = h) L) \<le> 1)"

fun throughout_by ::
  "((nat \<times> elem) list \<Rightarrow> event \<Rightarrow> (nat \<times> elem) list) \<Rightarrow> (nat \<times> elem) list \<Rightarrow>
   event list \<Rightarrow> bool" where
  "throughout_by f L [] = at_most_one_each L"
| "throughout_by f L (e # es) = (at_most_one_each L \<and> throughout_by f (f L e) es)"

definition owned :: "(nat \<times> elem) list \<Rightarrow> (elem \<rightharpoonup> nat) \<Rightarrow> nat \<Rightarrow> bool" where
  "owned L st n =
     ((\<forall>p \<in> set L. st (snd p) = Some (fst p) \<and> fst p < n) \<and> distinct (map fst L))"

definition engine_invariant :: "world \<Rightarrow> bool" where
  "engine_invariant w =
     (owned (live_engines (trace w)) (state w) (length (engines w)) \<and>
      one_engine_throughout (trace w))"

text \<open>What the rebind check adds to the trace.\<close>

definition rebind_events :: "elem \<Rightarrow> engine_id \<Rightarrow> world \<Rightarrow> event list" where
  "rebind_events this a w =
     (if forElement this w \<noteq> Some (results (engines w ! a)) \<or>
         inputElement this w \<noteq> Some (input (engines w ! a))
      then teardown_events this w @ build_events this w else [])"

text \<open>The controller each host holds, and what the first statement of \<^verbatim>\<open>fetchResult\<close> adds to the trace.\<close>

definition controller_of :: "world \<Rightarrow> elem \<rightharpoonup> controller" where
  "controller_of w = (\<lambda>h. priv_requestController (privates w h))"

definition abort_events :: "elem \<Rightarrow> world \<Rightarrow> event list" where
  "abort_events this w =
     (case priv_requestController (privates w this) of None \<Rightarrow> [] | Some c \<Rightarrow> [Aborted c])"

definition request_invariant :: "world \<Rightarrow> bool" where
  "request_invariant w =
     (owned (current_requests (trace w)) (controller_of w) (controllers w) \<and>
      one_request_throughout (trace w))"

section \<open>Concrete pages\<close>

text \<open>
  A document with one host, element 1, wired by markup: its \<^verbatim>\<open>for\<close> attribute names
  the results container, element 2, and it has one descendant input, element 3, and no
  hidden input.
\<close>

definition page :: dom where
  "page =
     \<lparr>isConnected = (\<lambda>e. True), getRootNode = (\<lambda>e. Document 0),
      getElementById = (\<lambda>r ident. if ident = ''list'' then Some 2 else None),
      querySelector = (\<lambda>e sel. if e = 1 \<and> sel = ''input'' then Some 3 else None)\<rparr>"

definition markup :: "elem \<Rightarrow> string \<rightharpoonup> string" where
  "markup = (\<lambda>e. if e = 1 then [''for'' \<mapsto> ''list'', ''value'' \<mapsto> ''abc''] else Map.empty)"

text \<open>The same document after a script has replaced the input by a new one, element 4.\<close>

definition page_input_replaced :: dom where
  "page_input_replaced =
     page\<lparr>querySelector := (\<lambda>e sel. if e = 1 \<and> sel = ''input'' then Some 4 else None)\<rparr>"

text \<open>The same document after a script has removed the input.\<close>

definition page_input_removed :: dom where
  "page_input_removed = page\<lparr>querySelector := (\<lambda>e sel. None)\<rparr>"

text \<open>The host connected to \<open>page\<close>: engine 0 is live and bound to elements 3 and 2.\<close>

definition wired :: world where
  "wired = connectedCallback 1 (initial_world page markup)"

text \<open>
  A sanitizer policy that upper-cases the ASCII letters of the text, responses of the
  network, and the world in which that policy has been installed.
\<close>

definition toUpperCase_char :: "char \<Rightarrow> char" where
  "toUpperCase_char c =
     (let n = (of_char c :: nat) in if 97 \<le> n \<and> n \<le> 122 then char_of (n - 32) else c)"

definition toUpperCase :: "string \<Rightarrow> string" where
  "toUpperCase s = map toUpperCase_char s"

definition upper_policy :: cspTrustedTypesPolicy where
  "upper_policy = \<lparr>createHTML = (\<lambda>s res. Inr (TrustedHTML (toUpperCase s)))\<rparr>"

definition hello_response :: response where
  "hello_response = \<lparr>status = 200, body = Inr ''hello''\<rparr>"

definition unavailable_response :: response where
  "unavailable_response = \<lparr>status = 503, body = Inr ''unavailable''\<rparr>"

definition sanitizing :: world where
  "sanitizing = setCSPTrustedTypesPolicy (Some (Direct upper_policy)) (initial_world page markup)"

section \<open>Frame and trace lemmas for the lifecycle operations\<close>

lemma getters_frame:
  assumes "dom w' = dom w" "privates w' = privates w" "attributes w' = attributes w"
  shows "forElement h w' = forElement h w" "inputElement h w' = inputElement h w"
    "hiddenInputElement h w' = hiddenInputElement h w" "getAttribute h n w' = getAttribute h n w"
  unfolding forElement_def inputElement_def hiddenInputElement_def connected_ref_def
    getAttribute_def assms
  by (rule refl)+

lemma destroy_frame [simp]:
  "dom (destroy a w) = dom w" "privates (destroy a w) = privates w"
  "attributes (destroy a w) = attributes w" "state (destroy a w) = state w"
  "controllers (destroy a w) = controllers w"
  "cspTrustedTypesPolicyPromise (destroy a w) = cspTrustedTypesPolicyPromise w"
  "trace (destroy a w) = trace w @ [Destroyed a]"
  "length (engines (destroy a w)) = length (engines w)"
  by (simp_all add: destroy_def emit_def)

lemma destroy_current_frame [simp]:
  "dom (destroy_current h w) = dom w" "privates (destroy_current h w) = privates w"
  "attributes (destroy_current h w) = attributes w" "state (destroy_current h w) = state w"
  "controllers (destroy_current h w) = controllers w"
  "cspTrustedTypesPolicyPromise (destroy_current h w) = cspTrustedTypesPolicyPromise w"
  "trace (destroy_current h w) = trace w @ teardown_events h w"
  "length (engines (destroy_current h w)) = length (engines w)"
  by (simp_all add: destroy_current_def teardown_events_def split: option.splits)

lemma destroy_current_getters [simp]:
  "forElement h (destroy_current x w) = forElement h w"
  "inputElement h (destroy_current x w) = inputElement h w"
  "hiddenInputElement h (destroy_current x w) = hiddenInputElement h w"
  "getAttribute h n (destroy_current x w) = getAttribute h n w"
  by (rule getters_frame; simp)+

lemma reattachState_frame [simp]:
  "dom (reattachState h w) = dom w" "privates (reattachState h w) = privates w"
  "controllers (reattachState h w) = controllers w"
  "cspTrustedTypesPolicyPromise (reattachState h w) = cspTrustedTypesPolicyPromise w"
  by (simp_all add: reattachState_def Let_def new_Autocomplete_def emit_def store_attribute_def
      split: option.splits)

lemma reattachState_trace:
  "trace (reattachState h w) = trace w @ teardown_events h w @ build_events h w"
  by (simp add: reattachState_def Let_def new_Autocomplete_def emit_def store_attribute_def
      build_events_def resolved_def split: option.splits)

lemma reattachState_state:
  "state (reattachState h w) =
     (if resolved h w then (state w)(h \<mapsto> length (engines w)) else state w)"
  by (simp add: reattachState_def Let_def new_Autocomplete_def emit_def store_attribute_def
      resolved_def split: option.splits)

lemma reattachState_length:
  "length (engines (reattachState h w)) =
     (if resolved h w then Suc (length (engines w)) else length (engines w))"
  by (simp add: reattachState_def Let_def new_Autocomplete_def emit_def store_attribute_def
      resolved_def split: option.splits)

lemma destroy_input:
  "a < length (engines w) \<Longrightarrow> input (engines (destroy b w) ! a) = input (engines w ! a)"
  "a < length (engines w) \<Longrightarrow> results (engines (destroy b w) ! a) = results (engines w ! a)"
  "a < length (engines w) \<Longrightarrow> hiddenInput (engines (destroy b w) ! a) = hiddenInput (engines w ! a)"
  by (cases "b = a"; simp add: destroy_def emit_def)+

lemma destroy_current_input:
  "a < length (engines w) \<Longrightarrow> input (engines (destroy_current h w) ! a) = input (engines w ! a)"
  "a < length (engines w) \<Longrightarrow> results (engines (destroy_current h w) ! a) = results (engines w ! a)"
  "a < length (engines w) \<Longrightarrow> hiddenInput (engines (destroy_current h w) ! a) = hiddenInput (engines w ! a)"
  by (simp_all add: destroy_current_def destroy_input split: option.splits)

lemma reattachState_input:
  "a < length (engines w) \<Longrightarrow> input (engines (reattachState h w) ! a) = input (engines w ! a)"
  "a < length (engines w) \<Longrightarrow> results (engines (reattachState h w) ! a) = results (engines w ! a)"
  "a < length (engines w) \<Longrightarrow> hiddenInput (engines (reattachState h w) ! a) = hiddenInput (engines w ! a)"
  by (simp_all add: reattachState_def Let_def new_Autocomplete_def emit_def store_attribute_def
      nth_append destroy_current_input split: option.splits)

section \<open>At most one object per host, after every prefix of a trace\<close>

lemma live_engines_append:
  "live_engines (tr @ evs) = foldl live_step (live_engines tr) evs"
  by (simp add: live_engines_def)

lemma throughout_by_head: "throughout_by f L evs \<Longrightarrow> at_most_one_each L"
  by (cases evs) simp_all

lemma throughout_by_append:
  "throughout_by f L (xs @ ys) \<longleftrightarrow>
   throughout_by f L xs \<and> throughout_by f (foldl f L xs) ys"
  by (induction xs arbitrary: L) (auto dest: throughout_by_head)

lemma throughout_by_prefixes:
  "(\<forall>n. at_most_one_each (foldl f L (take n tr))) \<longleftrightarrow> throughout_by f L tr"
proof (induction tr arbitrary: L)
  case Nil
  show ?case by simp
next
  case (Cons e es)
  have "(\<forall>n. at_most_one_each (foldl f L (take n (e # es)))) \<longleftrightarrow>
        at_most_one_each L \<and> (\<forall>m. at_most_one_each (foldl f (f L e) (take m es)))"
  proof
    assume a: "\<forall>n. at_most_one_each (foldl f L (take n (e # es)))"
    have "at_most_one_each L" using a [rule_format, of 0] by simp
    moreover have "at_most_one_each (foldl f (f L e) (take m es))" for m
      using a [rule_format, of "Suc m"] by simp
    ultimately show "at_most_one_each L \<and>
      (\<forall>m. at_most_one_each (foldl f (f L e) (take m es)))" by simp
  next
    assume b: "at_most_one_each L \<and>
      (\<forall>m. at_most_one_each (foldl f (f L e) (take m es)))"
    show "\<forall>n. at_most_one_each (foldl f L (take n (e # es)))"
    proof
      fix n show "at_most_one_each (foldl f L (take n (e # es)))"
        using b by (cases n) simp_all
    qed
  qed
  then show ?case using Cons.IH [of "f L e"] by simp
qed

lemma one_engine_throughout_iff:
  "one_engine_throughout tr \<longleftrightarrow> throughout_by live_step [] tr"
  using throughout_by_prefixes [of live_step "[]" tr]
  by (simp add: one_engine_throughout_def live_for_def live_engines_def at_most_one_each_def)

lemma one_engine_throughout_append:
  "one_engine_throughout (tr @ evs) \<longleftrightarrow>
   one_engine_throughout tr \<and> throughout_by live_step (live_engines tr) evs"
  by (simp add: one_engine_throughout_iff throughout_by_append live_engines_def)

lemma distinct_const_length:
  "distinct xs \<Longrightarrow> \<forall>x \<in> set xs. x = c \<Longrightarrow> length xs \<le> Suc 0"
  by (cases xs rule: remdups_adj.cases) auto

lemma owned_at_most_one:
  assumes "owned L st n" shows "at_most_one_each L"
  unfolding at_most_one_each_def
proof
  fix h
  let ?F = "filter (\<lambda>p. snd p = h) L"
  have d: "distinct (map fst ?F)" using assms by (simp add: owned_def distinct_map_filter)
  have "\<forall>x \<in> set (map fst ?F). x = the (st h)" using assms by (auto simp: owned_def)
  from distinct_const_length [OF d this] show "length ?F \<le> 1" by simp
qed

lemma owned_destroy: "owned L st n \<Longrightarrow> owned (filter (\<lambda>p. fst p \<noteq> a) L) st n"
  by (simp add: owned_def distinct_map_filter)

lemma owned_none: "owned L st n \<Longrightarrow> st h = None \<Longrightarrow> filter (\<lambda>p. snd p = h) L = []"
  by (auto simp: owned_def filter_empty_conv)

lemma owned_destroyed_none:
  "owned L st n \<Longrightarrow> st h = Some a \<Longrightarrow>
   filter (\<lambda>p. snd p = h) (filter (\<lambda>p. fst p \<noteq> a) L) = []"
  by (auto simp: owned_def filter_empty_conv)

lemma owned_construct:
  "owned L st n \<Longrightarrow> filter (\<lambda>p. snd p = h) L = [] \<Longrightarrow> owned (L @ [(n, h)]) (st(h \<mapsto> n)) (Suc n)"
  by (fastforce simp: owned_def filter_empty_conv)

lemma owned_delete:
  "owned L st n \<Longrightarrow> filter (\<lambda>p. snd p = h) L = [] \<Longrightarrow> owned L (st(h := None)) n"
  by (fastforce simp: owned_def filter_empty_conv)

lemma owned_teardown:
  assumes "owned L st n"
  shows "owned (foldl live_step L (case st h of None \<Rightarrow> [] | Some a \<Rightarrow> [Destroyed a])) st n"
    and "filter (\<lambda>p. snd p = h)
           (foldl live_step L (case st h of None \<Rightarrow> [] | Some a \<Rightarrow> [Destroyed a])) = []"
    and "throughout_by live_step L (case st h of None \<Rightarrow> [] | Some a \<Rightarrow> [Destroyed a])"
proof -
  note one = owned_at_most_one [OF assms]
  show "owned (foldl live_step L (case st h of None \<Rightarrow> [] | Some a \<Rightarrow> [Destroyed a])) st n"
    using assms by (cases "st h") (simp_all add: owned_destroy)
  show "filter (\<lambda>p. snd p = h)
           (foldl live_step L (case st h of None \<Rightarrow> [] | Some a \<Rightarrow> [Destroyed a])) = []"
  proof (cases "st h")
    case None
    then show ?thesis using owned_none [OF assms] by simp
  next
    case (Some a)
    then show ?thesis using owned_destroyed_none [OF assms Some] by simp
  qed
  show "throughout_by live_step L (case st h of None \<Rightarrow> [] | Some a \<Rightarrow> [Destroyed a])"
  proof (cases "st h")
    case None
    then show ?thesis using one by simp
  next
    case (Some a)
    then show ?thesis using one owned_at_most_one [OF owned_destroy [OF assms, of a]] by simp
  qed
qed

lemma owned_build:
  assumes "owned L st n" "filter (\<lambda>p. snd p = h) L = []"
  shows "owned (foldl live_step L (if r then [Constructed n h] else []))
           (if r then st(h \<mapsto> n) else st) (if r then Suc n else n)"
    and "throughout_by live_step L (if r then [Constructed n h] else [])"
proof -
  note c = owned_construct [OF assms]
  show "owned (foldl live_step L (if r then [Constructed n h] else []))
           (if r then st(h \<mapsto> n) else st) (if r then Suc n else n)"
    using assms(1) c by simp
  show "throughout_by live_step L (if r then [Constructed n h] else [])"
    using owned_at_most_one [OF assms(1)] owned_at_most_one [OF c] by simp
qed

lemma engine_invariant_reattachState:
  assumes "engine_invariant w" shows "engine_invariant (reattachState h w)"
proof -
  let ?L = "live_engines (trace w)"
  have o: "owned ?L (state w) (length (engines w))" and t: "one_engine_throughout (trace w)"
    using assms by (simp_all add: engine_invariant_def)
  note td = owned_teardown [OF o, of h]
  note bd = owned_build [OF td(1) td(2), of "resolved h w"]
  have "owned (live_engines (trace (reattachState h w))) (state (reattachState h w))
          (length (engines (reattachState h w)))"
    using bd(1) by (simp add: reattachState_trace reattachState_state reattachState_length
        live_engines_append teardown_events_def build_events_def)
  moreover have "one_engine_throughout (trace (reattachState h w))"
    using t td(3) bd(2)
    by (simp add: reattachState_trace one_engine_throughout_append throughout_by_append
        teardown_events_def build_events_def)
  ultimately show ?thesis by (simp add: engine_invariant_def)
qed

section \<open>The invariant is kept by every action\<close>

lemma attributeChangedCallback_world:
  assumes "oldValue \<noteq> newValue" "state w h = Some a"
  shows "snd (attributeChangedCallback h name oldValue newValue w) =
     (rebind h a w)\<lparr>trace := trace (rebind h a w) @
        command_events h name newValue a (engines (rebind h a w) ! a)\<rparr>"
  using assms
  by (simp add: attributeChangedCallback_def rebind_def command_events_def change_event_def
      emit_def Let_def split: option.splits)

lemma live_step_quiet: "\<not> is_lifecycle e \<Longrightarrow> live_step L e = L"
  by (cases e) simp_all

lemma foldl_live_step_quiet: "\<forall>e \<in> set evs. \<not> is_lifecycle e \<Longrightarrow> foldl live_step L evs = L"
  by (induction evs) (simp_all add: live_step_quiet)

lemma throughout_quiet:
  "\<forall>e \<in> set evs. \<not> is_lifecycle e \<Longrightarrow> at_most_one_each L \<Longrightarrow> throughout_by live_step L evs"
  by (induction evs) (simp_all add: live_step_quiet)

lemma engine_invariant_quiet:
  assumes "engine_invariant w" "trace w' = trace w @ evs" "\<forall>e \<in> set evs. \<not> is_lifecycle e"
    "state w' = state w" "length (engines w') = length (engines w)"
  shows "engine_invariant w'"
proof -
  have o: "owned (live_engines (trace w)) (state w) (length (engines w))"
    and t: "one_engine_throughout (trace w)"
    using assms(1) by (simp_all add: engine_invariant_def)
  have "live_engines (trace w') = live_engines (trace w)"
    using assms(2,3) by (simp add: live_engines_append foldl_live_step_quiet)
  moreover have "one_engine_throughout (trace w')"
    using t assms(2) throughout_quiet [OF assms(3) owned_at_most_one [OF o]]
    by (simp add: one_engine_throughout_append)
  ultimately show ?thesis using o assms(4,5) by (simp add: engine_invariant_def)
qed

lemma command_events_quiet:
  "\<forall>e \<in> set (command_events h name newValue a eng). \<not> is_lifecycle e \<and> \<not> is_request e"
  by (auto simp add: command_events_def change_event_def split: option.splits)

lemma engine_invariant_rebind: "engine_invariant w \<Longrightarrow> engine_invariant (rebind h a w)"
  by (simp add: rebind_def engine_invariant_reattachState)

lemma engine_invariant_attributeChangedCallback:
  assumes "engine_invariant w"
  shows "engine_invariant (snd (attributeChangedCallback h name oldValue newValue w))"
proof (cases "oldValue = newValue \<or> state w h = None")
  case True
  then show ?thesis using assms by (auto simp: attributeChangedCallback_def)
next
  case False
  then obtain a where a: "oldValue \<noteq> newValue" "state w h = Some a" by auto
  show ?thesis
    unfolding attributeChangedCallback_world [OF a]
    by (rule engine_invariant_quiet [OF engine_invariant_rebind [OF assms, of h a]])
      (use command_events_quiet in auto)
qed

lemma disconnectedCallback_proj:
  "trace (disconnectedCallback h w) = trace w @ teardown_events h w"
  "state (disconnectedCallback h w) = (state w)(h := None)"
  "length (engines (disconnectedCallback h w)) = length (engines w)"
  "privates (disconnectedCallback h w) = privates w"
  "controllers (disconnectedCallback h w) = controllers w"
  by (auto simp add: disconnectedCallback_def teardown_events_def Let_def split: option.splits)

lemma engine_invariant_disconnectedCallback:
  assumes "engine_invariant w" shows "engine_invariant (disconnectedCallback h w)"
proof -
  have o: "owned (live_engines (trace w)) (state w) (length (engines w))"
    and t: "one_engine_throughout (trace w)"
    using assms by (simp_all add: engine_invariant_def)
  note td = owned_teardown [OF o, of h]
  have "owned (live_engines (trace (disconnectedCallback h w)))
          (state (disconnectedCallback h w)) (length (engines (disconnectedCallback h w)))"
    using owned_delete [OF td(1) td(2)]
    by (simp add: disconnectedCallback_proj live_engines_append teardown_events_def)
  moreover have "one_engine_throughout (trace (disconnectedCallback h w))"
    using t td(3)
    by (simp add: disconnectedCallback_proj one_engine_throughout_append teardown_events_def)
  ultimately show ?thesis by (simp add: engine_invariant_def)
qed

lemma fetchResult_proj:
  "trace (snd (fetchResult h url w)) =
     trace w @ (case priv_requestController (privates w h) of None \<Rightarrow> [] | Some c \<Rightarrow> [Aborted c]) @
       [FetchCalled h url (controllers w) [(''Accept'', ''text/fragment+html'')]]"
  "state (snd (fetchResult h url w)) = state w"
  "engines (snd (fetchResult h url w)) = engines w"
  "controllers (snd (fetchResult h url w)) = Suc (controllers w)"
  "priv_requestController (privates (snd (fetchResult h url w)) x) =
     (if x = h then Some (controllers w) else priv_requestController (privates w x))"
  "fst (fetchResult h url w) = AwaitFetch (controllers w)"
  by (simp_all add: fetchResult_def Let_def emit_def split: option.splits)

lemma engine_invariant_perform:
  assumes "engine_invariant w" shows "engine_invariant (perform act w)"
proof (cases act)
  case (Connected h)
  then show ?thesis using assms by (simp add: connectedCallback_def engine_invariant_reattachState)
next
  case (Disconnected h)
  then show ?thesis using assms by (simp add: engine_invariant_disconnectedCallback)
next
  case (AttributeChanged h name ov nv)
  then show ?thesis using assms by (simp add: engine_invariant_attributeChangedCallback)
next
  case (SetInputElement h e)
  have "engine_invariant (w\<lparr>privates := (privates w)(h := (privates w h)\<lparr>priv_inputElement := e\<rparr>)\<rparr>)"
    using assms by (simp add: engine_invariant_def)
  then show ?thesis using SetInputElement
    by (simp add: set_inputElement_def engine_invariant_reattachState)
next
  case (SetHiddenInputElement h e)
  have "engine_invariant
     (w\<lparr>privates := (privates w)(h := (privates w h)\<lparr>priv_hiddenInputElement := e\<rparr>)\<rparr>)"
    using assms by (simp add: engine_invariant_def)
  then show ?thesis using SetHiddenInputElement
    by (simp add: set_hiddenInputElement_def engine_invariant_reattachState)
next
  case (SetForElement h e)
  have "engine_invariant
     (store_attribute h ''for'' []
       (w\<lparr>privates := (privates w)(h := (privates w h)\<lparr>priv_forElement := e\<rparr>)\<rparr>))"
    using assms by (simp add: engine_invariant_def store_attribute_def)
  then show ?thesis using SetForElement
    by (simp add: set_forElement_def setAttribute_def Let_def observedAttributes_def
        engine_invariant_attributeChangedCallback)
next
  case (FetchResult h url)
  show ?thesis unfolding FetchResult perform.simps
    by (rule engine_invariant_quiet [OF assms fetchResult_proj(1)])
      (auto simp add: fetchResult_proj split: option.splits)
next
  case (SetCSPTrustedTypesPolicy p)
  then show ?thesis using assms by (simp add: setCSPTrustedTypesPolicy_def engine_invariant_def)
next
  case (DocumentChanged d attrs)
  then show ?thesis using assms by (simp add: engine_invariant_def)
qed

lemma engine_invariant_run: "engine_invariant w \<Longrightarrow> engine_invariant (run acts w)"
  by (induction acts arbitrary: w) (simp_all add: engine_invariant_perform)

lemma engine_invariant_initial: "engine_invariant (initial_world d attrs)"
  by (simp add: engine_invariant_def initial_world_def owned_def live_engines_def
      one_engine_throughout_def live_for_def)

section \<open>The attribute reaction on \<^verbatim>\<open>value\<close>\<close>

lemma rebind_trace: "trace (rebind h a w) = trace w @ rebind_events h a w"
  by (simp add: rebind_def rebind_events_def reattachState_trace)

lemma rebind_events_lifecycle: "e \<in> set (rebind_events h a w) \<Longrightarrow> is_lifecycle e"
  by (auto simp add: rebind_events_def teardown_events_def build_events_def
      split: option.splits if_splits)

lemma rebind_input:
  "a < length (engines w) \<Longrightarrow> input (engines (rebind h b w) ! a) = input (engines w ! a)"
  by (simp add: rebind_def reattachState_input)

lemma rebind_associated:
  assumes "state w h = Some a" "a < length (engines w)"
  shows "\<exists>b. state (rebind h a w) h = Some b \<and> b < length (engines (rebind h a w))"
  using assms by (simp add: rebind_def reattachState_state reattachState_length)

lemma lifecycle_filtered:
  assumes "\<And>e. e \<in> set evs \<Longrightarrow> is_lifecycle e"
  shows "filter is_value_write evs = []" "filter is_notification evs = []"
proof -
  have "\<not> is_value_write e \<and> \<not> is_notification e" if "e \<in> set evs" for e
    using assms [OF that] by (cases e) simp_all
  then show "filter is_value_write evs = []" "filter is_notification evs = []"
    by (simp_all add: filter_empty_conv)
qed

lemma attributeChangedCallback_normal_value:
  "fst (attributeChangedCallback h ''value'' oldValue newValue w) = Normal"
  by (simp add: attributeChangedCallback_def Let_def split: option.splits)

lemma value_mutation_trace:
  assumes "oldValue \<noteq> newValue" "state w h = Some a" "a < length (engines w)"
  shows "trace (snd (attributeChangedCallback h ''value'' oldValue newValue w)) =
     trace w @ rebind_events h a w @
       (case newValue of None \<Rightarrow> [] | Some v \<Rightarrow> [ValueWritten (input (engines w ! a)) v]) @
       [change_event h (input (engines w ! a))]"
  by (simp add: attributeChangedCallback_world [OF assms(1,2)] rebind_trace
      rebind_input [OF assms(3)] command_events_def split: option.splits)

lemma value_mutation_rest:
  assumes "oldValue \<noteq> newValue" "state w h = Some a"
  shows "state (snd (attributeChangedCallback h name oldValue newValue w)) = state (rebind h a w)"
    "engines (snd (attributeChangedCallback h name oldValue newValue w)) = engines (rebind h a w)"
  by (simp_all add: attributeChangedCallback_world [OF assms(1,2)])

text \<open>
  What the reaction to \<^verbatim>\<open>value\<close> does with the engine \<open>a\<close> it reads from the WeakMap
  on entry: after the events of the rebind check it writes a non-null new value into the
  input of \<open>a\<close> and dispatches the event with that input, also when the rebind check has
  just destroyed \<open>a\<close>.
\<close>

lemma value_mutation_on_entry_engine:
  assumes "state w h = Some a" "a < length (engines w)"
  shows "(oldValue \<noteq> newValue \<longrightarrow>
      fst (attributeChangedCallback h ''value'' oldValue newValue w) = Normal \<and>
      trace (snd (attributeChangedCallback h ''value'' oldValue newValue w)) =
        trace w @ rebind_events h a w @
          (case newValue of None \<Rightarrow> [] | Some v \<Rightarrow> [ValueWritten (input (engines w ! a)) v]) @
          [Dispatched h \<lparr>event_type = ''auto-complete-change'', bubbles = True,
              relatedTarget = input (engines w ! a)\<rparr>] \<and>
      (\<forall>e \<in> set (rebind_events h a w). is_lifecycle e)) \<and>
    (oldValue \<noteq> Some ''abc'' \<longrightarrow>
      value_writes (trace (snd (attributeChangedCallback h ''value'' (Some ''abc'') None
          (snd (attributeChangedCallback h ''value'' oldValue (Some ''abc'') w))))) =
        value_writes (trace w) @ [ValueWritten (input (engines w ! a)) ''abc''] \<and>
      length (notifications (trace (snd (attributeChangedCallback h ''value'' (Some ''abc'') None
          (snd (attributeChangedCallback h ''value'' oldValue (Some ''abc'') w)))))) =
        length (notifications (trace w)) + 2)"
proof (intro conjI impI)
  assume d: "oldValue \<noteq> newValue"
  show "fst (attributeChangedCallback h ''value'' oldValue newValue w) = Normal"
    by (rule attributeChangedCallback_normal_value)
  show "trace (snd (attributeChangedCallback h ''value'' oldValue newValue w)) =
        trace w @ rebind_events h a w @
          (case newValue of None \<Rightarrow> [] | Some v \<Rightarrow> [ValueWritten (input (engines w ! a)) v]) @
          [Dispatched h \<lparr>event_type = ''auto-complete-change'', bubbles = True,
              relatedTarget = input (engines w ! a)\<rparr>]"
    using value_mutation_trace [OF d assms] by (simp add: change_event_def)
  show "\<forall>e \<in> set (rebind_events h a w). is_lifecycle e"
    by (simp add: rebind_events_lifecycle)
next
  assume d: "oldValue \<noteq> Some ''abc''"
  let ?w1 = "snd (attributeChangedCallback h ''value'' oldValue (Some ''abc'') w)"
  let ?w2 = "snd (attributeChangedCallback h ''value'' (Some ''abc'') None ?w1)"
  obtain b where b: "state ?w1 h = Some b" "b < length (engines ?w1)"
    using rebind_associated [OF assms] by (auto simp add: value_mutation_rest [OF d assms(1)])
  have t1: "trace ?w1 = trace w @ rebind_events h a w @
       [ValueWritten (input (engines w ! a)) ''abc'', change_event h (input (engines w ! a))]"
    using value_mutation_trace [OF d assms] by simp
  have t2: "trace ?w2 = trace ?w1 @ rebind_events h b ?w1 @
       [change_event h (input (engines ?w1 ! b))]"
    using value_mutation_trace [OF _ b, of "Some ''abc''" None] by simp
  note f1 = lifecycle_filtered [of "rebind_events h a w", OF rebind_events_lifecycle]
  note f2 = lifecycle_filtered [of "rebind_events h b ?w1", OF rebind_events_lifecycle]
  show "value_writes (trace ?w2) =
      value_writes (trace w) @ [ValueWritten (input (engines w ! a)) ''abc'']"
    unfolding t2 unfolding t1 by (simp add: value_writes_def f1 f2 change_event_def)
  show "length (notifications (trace ?w2)) = length (notifications (trace w)) + 2"
    unfolding t2 unfolding t1 by (simp add: notifications_def f1 f2 change_event_def)
qed

section \<open>The request invariant\<close>

lemma controller_of_apply: "controller_of w h = priv_requestController (privates w h)"
  by (simp add: controller_of_def)

lemma current_requests_append:
  "current_requests (tr @ evs) = foldl current_step (current_requests tr) evs"
  by (simp add: current_requests_def)

lemma one_request_throughout_iff:
  "one_request_throughout tr \<longleftrightarrow> throughout_by current_step [] tr"
  using throughout_by_prefixes [of current_step "[]" tr]
  by (simp add: one_request_throughout_def current_for_def current_requests_def
      at_most_one_each_def)

lemma one_request_throughout_append:
  "one_request_throughout (tr @ evs) \<longleftrightarrow>
   one_request_throughout tr \<and> throughout_by current_step (current_requests tr) evs"
  by (simp add: one_request_throughout_iff throughout_by_append current_requests_def)

lemma current_step_quiet: "\<not> is_request e \<Longrightarrow> current_step L e = L"
  by (cases e) simp_all

lemma foldl_current_step_quiet:
  "\<forall>e \<in> set evs. \<not> is_request e \<Longrightarrow> foldl current_step L evs = L"
  by (induction evs) (simp_all add: current_step_quiet)

lemma throughout_requests_quiet:
  "\<forall>e \<in> set evs. \<not> is_request e \<Longrightarrow> at_most_one_each L \<Longrightarrow>
   throughout_by current_step L evs"
  by (induction evs) (simp_all add: current_step_quiet)

lemma request_invariant_quiet:
  assumes "request_invariant w" "trace w' = trace w @ evs" "\<forall>e \<in> set evs. \<not> is_request e"
    "controller_of w' = controller_of w" "controllers w' = controllers w"
  shows "request_invariant w'"
proof -
  have o: "owned (current_requests (trace w)) (controller_of w) (controllers w)"
    and t: "one_request_throughout (trace w)"
    using assms(1) by (simp_all add: request_invariant_def)
  have "current_requests (trace w') = current_requests (trace w)"
    using assms(2,3) by (simp add: current_requests_append foldl_current_step_quiet)
  moreover have "one_request_throughout (trace w')"
    using t assms(2) throughout_requests_quiet [OF assms(3) owned_at_most_one [OF o]]
    by (simp add: one_request_throughout_append)
  ultimately show ?thesis using o assms(4,5) by (simp add: request_invariant_def)
qed

lemma owned_abort:
  assumes "owned L st n"
  shows "owned (foldl current_step L (case st h of None \<Rightarrow> [] | Some c \<Rightarrow> [Aborted c])) st n"
    and "filter (\<lambda>p. snd p = h)
           (foldl current_step L (case st h of None \<Rightarrow> [] | Some c \<Rightarrow> [Aborted c])) = []"
    and "throughout_by current_step L (case st h of None \<Rightarrow> [] | Some c \<Rightarrow> [Aborted c])"
proof -
  note one = owned_at_most_one [OF assms]
  show "owned (foldl current_step L (case st h of None \<Rightarrow> [] | Some c \<Rightarrow> [Aborted c])) st n"
    using assms by (cases "st h") (simp_all add: owned_destroy)
  show "filter (\<lambda>p. snd p = h)
           (foldl current_step L (case st h of None \<Rightarrow> [] | Some c \<Rightarrow> [Aborted c])) = []"
  proof (cases "st h")
    case None
    then show ?thesis using owned_none [OF assms] by simp
  next
    case (Some c)
    then show ?thesis using owned_destroyed_none [OF assms Some] by simp
  qed
  show "throughout_by current_step L (case st h of None \<Rightarrow> [] | Some c \<Rightarrow> [Aborted c])"
  proof (cases "st h")
    case None
    then show ?thesis using one by simp
  next
    case (Some c)
    then show ?thesis using one owned_at_most_one [OF owned_destroy [OF assms, of c]] by simp
  qed
qed

lemma owned_fetch:
  assumes "owned L st n" "filter (\<lambda>p. snd p = h) L = []"
  shows "owned (foldl current_step L [FetchCalled h url n hs]) (st(h \<mapsto> n)) (Suc n)"
    and "throughout_by current_step L [FetchCalled h url n hs]"
proof -
  note c = owned_construct [OF assms]
  show "owned (foldl current_step L [FetchCalled h url n hs]) (st(h \<mapsto> n)) (Suc n)"
    using c by simp
  show "throughout_by current_step L [FetchCalled h url n hs]"
    using owned_at_most_one [OF assms(1)] owned_at_most_one [OF c] by simp
qed

lemma fetchResult_trace:
  "trace (snd (fetchResult h url w)) =
     trace w @ abort_events h w @
       [FetchCalled h url (controllers w) [(''Accept'', ''text/fragment+html'')]]"
  by (simp add: fetchResult_proj abort_events_def)

lemma fetchResult_controller_of:
  "controller_of (snd (fetchResult h url w)) = (controller_of w)(h \<mapsto> controllers w)"
  by (rule ext) (simp add: controller_of_def fetchResult_proj)

lemma request_invariant_fetchResult:
  assumes "request_invariant w" shows "request_invariant (snd (fetchResult h url w))"
proof -
  let ?L = "current_requests (trace w)"
  have o: "owned ?L (controller_of w) (controllers w)" and t: "one_request_throughout (trace w)"
    using assms by (simp_all add: request_invariant_def)
  note ab = owned_abort [OF o, of h]
  note fe = owned_fetch [OF ab(1) ab(2), of url "[(''Accept'', ''text/fragment+html'')]"]
  have "owned (current_requests (trace (snd (fetchResult h url w))))
          (controller_of (snd (fetchResult h url w))) (controllers (snd (fetchResult h url w)))"
    using fe(1)
    by (simp add: fetchResult_trace fetchResult_controller_of fetchResult_proj
        current_requests_append abort_events_def controller_of_apply)
  moreover have "one_request_throughout (trace (snd (fetchResult h url w)))"
    using t ab(3) fe(2)
    by (simp add: fetchResult_trace one_request_throughout_append throughout_by_append
        abort_events_def controller_of_apply)
  ultimately show ?thesis by (simp add: request_invariant_def)
qed

lemma reattach_events_quiet:
  "\<forall>e \<in> set (teardown_events h w @ build_events h w). \<not> is_request e"
  by (auto simp add: teardown_events_def build_events_def split: option.splits)

lemma request_invariant_reattachState:
  assumes "request_invariant w" shows "request_invariant (reattachState h w)"
  by (rule request_invariant_quiet [OF assms reattachState_trace reattach_events_quiet])
    (simp_all add: controller_of_def)

lemma request_invariant_disconnectedCallback:
  assumes "request_invariant w" shows "request_invariant (disconnectedCallback h w)"
  by (rule request_invariant_quiet [OF assms disconnectedCallback_proj(1)])
    (auto simp add: controller_of_def disconnectedCallback_proj teardown_events_def
      split: option.splits)

lemma request_invariant_attributeChangedCallback:
  assumes "request_invariant w"
  shows "request_invariant (snd (attributeChangedCallback h name oldValue newValue w))"
proof (cases "oldValue = newValue \<or> state w h = None")
  case True
  then show ?thesis using assms by (auto simp: attributeChangedCallback_def)
next
  case False
  then obtain a where a: "oldValue \<noteq> newValue" "state w h = Some a" by auto
  have rb: "request_invariant (rebind h a w)"
    using assms by (simp add: rebind_def request_invariant_reattachState)
  show ?thesis
    unfolding attributeChangedCallback_world [OF a]
    by (rule request_invariant_quiet [OF rb])
      (use command_events_quiet in \<open>auto simp add: controller_of_def\<close>)
qed

lemma controller_of_privates:
  assumes "priv_requestController p = priv_requestController (privates w h)"
  shows "controller_of (w\<lparr>privates := (privates w)(h := p)\<rparr>) = controller_of w"
  using assms by (auto simp add: controller_of_def fun_eq_iff)

lemma request_invariant_privates:
  assumes "priv_requestController p = priv_requestController (privates w h)"
  shows "request_invariant (w\<lparr>privates := (privates w)(h := p)\<rparr>) = request_invariant w"
  by (simp add: request_invariant_def controller_of_privates [OF assms])

lemma request_invariant_perform:
  assumes "request_invariant w" shows "request_invariant (perform act w)"
proof (cases act)
  case (Connected h)
  then show ?thesis using assms by (simp add: connectedCallback_def request_invariant_reattachState)
next
  case (Disconnected h)
  then show ?thesis using assms by (simp add: request_invariant_disconnectedCallback)
next
  case (AttributeChanged h name ov nv)
  then show ?thesis using assms by (simp add: request_invariant_attributeChangedCallback)
next
  case (SetInputElement h e)
  then show ?thesis using assms
    by (simp add: set_inputElement_def request_invariant_reattachState request_invariant_privates)
next
  case (SetHiddenInputElement h e)
  then show ?thesis using assms
    by (simp add: set_hiddenInputElement_def request_invariant_reattachState
        request_invariant_privates)
next
  case (SetForElement h e)
  have "request_invariant
     (store_attribute h ''for'' []
       (w\<lparr>privates := (privates w)(h := (privates w h)\<lparr>priv_forElement := e\<rparr>)\<rparr>))"
    using assms request_invariant_privates [of "(privates w h)\<lparr>priv_forElement := e\<rparr>" w h]
    by (simp add: request_invariant_def store_attribute_def controller_of_def)
  then show ?thesis using SetForElement
    by (simp add: set_forElement_def setAttribute_def Let_def observedAttributes_def
        request_invariant_attributeChangedCallback)
next
  case (FetchResult h url)
  then show ?thesis using assms by (simp add: request_invariant_fetchResult)
next
  case (SetCSPTrustedTypesPolicy p)
  then show ?thesis using assms
    by (simp add: setCSPTrustedTypesPolicy_def request_invariant_def controller_of_def)
next
  case (DocumentChanged d attrs)
  then show ?thesis using assms by (simp add: request_invariant_def controller_of_def)
qed

lemma request_invariant_run: "request_invariant w \<Longrightarrow> request_invariant (run acts w)"
  by (induction acts arbitrary: w) (simp_all add: request_invariant_perform)

lemma request_invariant_initial: "request_invariant (initial_world d attrs)"
  by (simp add: request_invariant_def initial_world_def owned_def current_requests_def
      one_request_throughout_def current_for_def)

section \<open>Calls in flight\<close>

lemma toUpperCase_hello: "toUpperCase ''hello'' = ''HELLO''"
  by code_simp

lemma fetchResult_policy:
  "cspTrustedTypesPolicyPromise (snd (fetchResult h url w)) = cspTrustedTypesPolicyPromise w"
  by (simp add: fetchResult_def Let_def emit_def split: option.splits)

lemma fetchResult_awaits: "fst (fetchResult h url w) = AwaitFetch (controllers w)"
  by (simp add: fetchResult_def Let_def emit_def split: option.splits)

lemma fetchResult_pair:
  "fetchResult h url w = (AwaitFetch (controllers w), snd (fetchResult h url w))"
  using fetchResult_awaits [of h url w] by (cases "fetchResult h url w") simp

lemma run_ticks_append: "run_ticks (xs @ ys) kw = run_ticks ys (run_ticks xs kw)"
  by (induction xs arbitrary: kw) simp_all

lemma run_ticks_before_settling:
  "\<forall>t \<in> set pre. \<not> is_FetchSettles t \<Longrightarrow> fst (run_ticks pre (AwaitFetch c, w)) = AwaitFetch c"
proof (induction pre arbitrary: w)
  case Nil
  show ?case by simp
next
  case (Cons t pre)
  then show ?case by (cases t) simp_all
qed

lemma resume_not_awaits_fetch: "\<not> awaits_fetch k \<Longrightarrow> \<not> awaits_fetch (resume k)"
  by (cases k) (simp_all split: sum.splits promise.splits)

lemma after_fetch_not_awaits_fetch: "\<not> awaits_fetch (after_fetch r w)"
  by (simp add: after_fetch_def split: sum.splits option.splits)

lemma run_ticks_after_settling:
  "\<not> awaits_fetch k \<Longrightarrow>
   fst (run_ticks ts (k, w)) = fst (run_ticks (filter (\<lambda>t. \<not> is_SetPolicy t) ts) (k, w'))"
proof (induction ts arbitrary: k w w')
  case Nil
  show ?case by simp
next
  case (Cons t ts)
  show ?case
  proof (cases t)
    case (SetPolicy p)
    then show ?thesis using Cons.IH [OF Cons.prems] by simp
  next
    case (FetchSettles r)
    then show ?thesis using Cons.IH [OF Cons.prems] Cons.prems by simp
  next
    case Resume
    then show ?thesis using Cons.IH [OF resume_not_awaits_fetch [OF Cons.prems]] by simp
  qed
qed

lemma in_flight_policy:
  assumes "\<forall>t \<in> set pre. \<not> is_FetchSettles t"
  shows "fst (run_ticks (pre @ FetchSettles r # post) (AwaitFetch c, w0)) =
     fst (run_ticks (FetchSettles r # filter (\<lambda>t. \<not> is_SetPolicy t) post)
       (AwaitFetch c, snd (run_ticks pre (AwaitFetch c, w0))))"
proof -
  obtain w1 where p: "run_ticks pre (AwaitFetch c, w0) = (AwaitFetch c, w1)"
    using run_ticks_before_settling [OF assms, of c w0]
    by (cases "run_ticks pre (AwaitFetch c, w0)") simp
  have "fst (run_ticks (pre @ FetchSettles r # post) (AwaitFetch c, w0)) =
        fst (run_ticks post (after_fetch r w1, w1))"
    by (simp add: run_ticks_append p)
  also have "\<dots> = fst (run_ticks (filter (\<lambda>t. \<not> is_SetPolicy t) post) (after_fetch r w1, w1))"
    by (rule run_ticks_after_settling [OF after_fetch_not_awaits_fetch])
  also have "\<dots> = fst (run_ticks (FetchSettles r # filter (\<lambda>t. \<not> is_SetPolicy t) post)
       (AwaitFetch c, w1))"
    by simp
  finally show ?thesis by (simp only: p snd_conv)
qed

lemma resume_Settled_funpow: "(resume ^^ n) (Settled x) = Settled x"
  by (induction n) simp_all

lemma run_ticks_resumes:
  "\<not> awaits_fetch k \<Longrightarrow>
   fst (run_ticks ts (k, w)) = (resume ^^ length (filter is_Resume ts)) k"
proof (induction ts arbitrary: k w)
  case Nil
  show ?case by simp
next
  case (Cons t ts)
  show ?case
  proof (cases t)
    case (SetPolicy p)
    then show ?thesis using Cons.IH [OF Cons.prems] by simp
  next
    case (FetchSettles r)
    then show ?thesis using Cons.IH [OF Cons.prems] Cons.prems by simp
  next
    case Resume
    then show ?thesis
      using Cons.IH [OF resume_not_awaits_fetch [OF Cons.prems]]
      by (simp add: funpow_swap1)
  qed
qed

lemma resume_twice_policy:
  assumes "body res = Inr t" "2 \<le> n"
  shows "(resume ^^ n) (AwaitPolicy res (Fulfilled pol)) = Settled (createHTML pol t res)"
proof -
  obtain m where n: "n = Suc (Suc m)"
    using assms(2) by (metis Suc_le_D numeral_2_eq_2 Suc_le_mono)
  show ?thesis
    unfolding n by (simp add: funpow_swap1 assms(1) resume_Settled_funpow)
qed

lemma resume_once_text:
  assumes "body res = Inr t" "1 \<le> n"
  shows "(resume ^^ n) (AwaitText res) = Settled (Inr (PlainString t))"
proof -
  obtain m where n: "n = Suc m"
    using assms(2) by (metis Suc_le_D One_nat_def)
  show ?thesis
    unfolding n by (simp add: funpow_swap1 assms(1) resume_Settled_funpow)
qed

lemma run_ticks_settles:
  assumes "\<forall>t \<in> set pre. \<not> is_FetchSettles t"
  shows "fst (run_ticks (pre @ FetchSettles r # post) (AwaitFetch c, w0)) =
     (resume ^^ length (filter is_Resume post))
       (after_fetch r (snd (run_ticks pre (AwaitFetch c, w0))))"
proof -
  obtain w1 where p: "run_ticks pre (AwaitFetch c, w0) = (AwaitFetch c, w1)"
    using run_ticks_before_settling [OF assms, of c w0]
    by (cases "run_ticks pre (AwaitFetch c, w0)") simp
  have "fst (run_ticks (pre @ FetchSettles r # post) (AwaitFetch c, w0)) =
        fst (run_ticks post (after_fetch r w1, w1))"
    by (simp add: run_ticks_append p)
  also have "\<dots> = (resume ^^ length (filter is_Resume post)) (after_fetch r w1)"
    by (rule run_ticks_resumes [OF after_fetch_not_awaits_fetch])
  finally show ?thesis by (simp only: p snd_conv)
qed

lemma run_ticks_last_policy:
  "cspTrustedTypesPolicyPromise (snd (run_ticks (pre @ [SetPolicy p]) kw)) =
     (case p of None \<Rightarrow> None | Some a \<Rightarrow> Some (Promise_resolve a))"
  by (cases "run_ticks pre kw") (simp add: run_ticks_append setCSPTrustedTypesPolicy_def)

lemma run_ticks_keeps_policy:
  "\<forall>t \<in> set ts. \<not> is_SetPolicy t \<Longrightarrow>
   cspTrustedTypesPolicyPromise (snd (run_ticks ts (k, w))) = cspTrustedTypesPolicyPromise w"
proof (induction ts arbitrary: k w)
  case Nil
  show ?case by simp
next
  case (Cons t ts)
  then show ?case by (cases t) simp_all
qed

section \<open>Evaluating the concrete pages\<close>

lemmas lifecycle_defs =
  connectedCallback_def disconnectedCallback_def reattachState_def destroy_current_def
  destroy_def new_Autocomplete_def store_attribute_def emit_def forElement_def inputElement_def
  hiddenInputElement_def connected_ref_def getAttribute_def attributeChangedCallback_def
  set_inputElement_def set_hiddenInputElement_def Let_def

lemmas page_defs =
  initial_world_def initial_fields_def page_def markup_def page_input_replaced_def
  page_input_removed_def

lemma wired_eval:
  "wired =
     \<lparr>dom = page,
      attributes = (\<lambda>e. if e = 1 then [''for'' \<mapsto> ''list'', ''value'' \<mapsto> ''abc''] else Map.empty)
        (2 := [''role'' \<mapsto> ''listbox'']),
      privates = (\<lambda>e. initial_fields), state = [1 \<mapsto> 0],
      engines = [\<lparr>container = 1, input = 3, hiddenInput = None, results = 2,
                  autoselectEnabled = False, destroyed = False\<rparr>],
      cspTrustedTypesPolicyPromise = None, controllers = 0, trace = [Constructed 0 1]\<rparr>"
  by (simp add: wired_def lifecycle_defs page_defs)

section \<open>One live engine per host\<close>

text \<open>
  C1. For every sequence of connections, disconnections, attribute reactions, property
  assignments, fetches and document changes, started when the module is loaded, every
  host has at most one live (constructed and not yet destroyed) engine after every prefix
  of the trace of effects, so also between the effects of a single callback. Within one
  \<^verbatim>\<open>#reattachState\<close> invocation the trace grows by the destruction of the associated
  engine, if there is one, followed by the construction of the new engine, if the
  bindings resolve: the destruction comes first.
\<close>

theorem one_live_engine_per_host:
  "one_engine_throughout (trace (run acts (initial_world d attrs))) \<and>
   trace (reattachState h w) = trace w @ teardown_events h w @ build_events h w"
  using engine_invariant_run [OF engine_invariant_initial, of acts d attrs]
  by (simp add: engine_invariant_def reattachState_trace)

theorem one_live_engine_per_host_witness:
  "trace (run [Connected 1, DocumentChanged page_input_replaced markup,
        AttributeChanged 1 ''open'' None (Some []), Disconnected 1]
      (initial_world page markup)) =
     [Constructed 0 1, Destroyed 0, Constructed 1 1, Opened 0, Destroyed 1] \<and>
   one_engine_throughout [Constructed 0 1, Destroyed 0, Constructed 1 1, Opened 0, Destroyed 1]"
proof (rule conjI)
  show e: "trace (run [Connected 1, DocumentChanged page_input_replaced markup,
        AttributeChanged 1 ''open'' None (Some []), Disconnected 1]
      (initial_world page markup)) =
     [Constructed 0 1, Destroyed 0, Constructed 1 1, Opened 0, Destroyed 1]"
    by (simp add: lifecycle_defs page_defs)
  have "one_engine_throughout (trace (run [Connected 1, DocumentChanged page_input_replaced markup,
        AttributeChanged 1 ''open'' None (Some []), Disconnected 1]
      (initial_world page markup)))"
    using one_live_engine_per_host
      [where acts = "[Connected 1, DocumentChanged page_input_replaced markup,
        AttributeChanged 1 ''open'' None (Some []), Disconnected 1]"
        and d = page and attrs = markup]
    by (rule conjunct1)
  then show "one_engine_throughout
      [Constructed 0 1, Destroyed 0, Constructed 1 1, Opened 0, Destroyed 1]"
    unfolding e .
qed

section \<open>The rebind check of the attribute reaction\<close>

text \<open>
  C2. The claim: when the resolved bindings differ from those of the live engine, the
  reaction reattaches first and then sends the attribute's command to the engine that
  exists after the rebuild. The code reattaches first, but sends the command to the
  engine it read before the rebuild. On the page whose input has been replaced, the
  reaction to \<^verbatim>\<open>open\<close> destroys engine 0, constructs engine 1, associates engine 1
  with the host, and then opens engine 0, which is destroyed.
\<close>

theorem rebind_commands_destroyed_engine:
  "trace (run [Connected 1, DocumentChanged page_input_replaced markup,
        AttributeChanged 1 ''open'' None (Some [])] (initial_world page markup)) =
     [Constructed 0 1, Destroyed 0, Constructed 1 1, Opened 0] \<and>
   state (run [Connected 1, DocumentChanged page_input_replaced markup,
        AttributeChanged 1 ''open'' None (Some [])] (initial_world page markup)) 1 = Some 1 \<and>
   destroyed (engines (run [Connected 1, DocumentChanged page_input_replaced markup,
        AttributeChanged 1 ''open'' None (Some [])] (initial_world page markup)) ! 0) \<and>
   \<not> destroyed (engines (run [Connected 1, DocumentChanged page_input_replaced markup,
        AttributeChanged 1 ''open'' None (Some [])] (initial_world page markup)) ! 1)"
  by (simp add: lifecycle_defs page_defs)

section \<open>Reattaching with unresolved bindings\<close>

text \<open>
  C3. The claim: \<^verbatim>\<open>#reattachState\<close> destroys the live engine and clears its association,
  and with an unresolved binding no engine remains associated with the host. The code
  destroys the engine, returns silently and constructs nothing, but it never deletes the
  WeakMap entry (\<^verbatim>\<open>disconnectedCallback\<close> does). On the page whose input has been
  removed, after a reattach the host is still associated with engine 0, which is
  destroyed; a later reaction to \<^verbatim>\<open>value\<close> passes the guard, writes the input of that
  engine and dispatches a notification.
\<close>

theorem reattach_keeps_destroyed_engine_associated:
  "trace (run [Connected 1, DocumentChanged page_input_removed markup,
        SetHiddenInputElement 1 None] (initial_world page markup)) =
     [Constructed 0 1, Destroyed 0] \<and>
   state (run [Connected 1, DocumentChanged page_input_removed markup,
        SetHiddenInputElement 1 None] (initial_world page markup)) 1 = Some 0 \<and>
   destroyed (engines (run [Connected 1, DocumentChanged page_input_removed markup,
        SetHiddenInputElement 1 None] (initial_world page markup)) ! 0) \<and>
   trace (run [Connected 1, DocumentChanged page_input_removed markup,
        SetHiddenInputElement 1 None, AttributeChanged 1 ''value'' (Some ''abc'') (Some ''x'')]
      (initial_world page markup)) =
     [Constructed 0 1, Destroyed 0, Destroyed 0, ValueWritten 3 ''x'', change_event 1 3]"
  by (simp add: lifecycle_defs page_defs change_event_def)

section \<open>One current request per host\<close>

text \<open>
  C4. The synchronous part of \<^verbatim>\<open>fetchResult\<close> first aborts the controller of the
  previously started request, if there is one, and only then calls \<^verbatim>\<open>fetch\<close> with the
  signal of a fresh controller. Hence for \<^verbatim>\<open>fetchResult(urlA)\<close> followed by
  \<^verbatim>\<open>fetchResult(urlB)\<close> the abort of A's controller is recorded before B's network
  call. For every sequence of actions started when the module is loaded, every host has
  at most one current (started and not yet aborted) request after every prefix of the
  trace.
\<close>

theorem fetchResult_aborts_previous_first:
  "fst (fetchResult h url w) = AwaitFetch (controllers w) \<and>
   trace (snd (fetchResult h url w)) =
     trace w @ abort_events h w @
       [FetchCalled h url (controllers w) [(''Accept'', ''text/fragment+html'')]] \<and>
   trace (snd (fetchResult h urlB (snd (fetchResult h urlA w)))) =
     trace (snd (fetchResult h urlA w)) @
       [Aborted (controllers w),
        FetchCalled h urlB (Suc (controllers w)) [(''Accept'', ''text/fragment+html'')]] \<and>
   one_request_throughout (trace (run acts (initial_world d attrs)))"
  using request_invariant_run [OF request_invariant_initial, of acts d attrs]
  by (simp add: request_invariant_def fetchResult_trace fetchResult_proj abort_events_def)

theorem fetchResult_aborts_previous_first_witness:
  "trace (run [FetchResult 1 ''/a'', Connected 1, FetchResult 1 ''/b'']
      (initial_world page markup)) =
     [FetchCalled 1 ''/a'' 0 [(''Accept'', ''text/fragment+html'')], Constructed 0 1, Aborted 0,
      FetchCalled 1 ''/b'' 1 [(''Accept'', ''text/fragment+html'')]] \<and>
   one_request_throughout
     [FetchCalled 1 ''/a'' 0 [(''Accept'', ''text/fragment+html'')], Constructed 0 1, Aborted 0,
      FetchCalled 1 ''/b'' 1 [(''Accept'', ''text/fragment+html'')]]"
proof (rule conjI)
  show e: "trace (run [FetchResult 1 ''/a'', Connected 1, FetchResult 1 ''/b'']
      (initial_world page markup)) =
     [FetchCalled 1 ''/a'' 0 [(''Accept'', ''text/fragment+html'')], Constructed 0 1, Aborted 0,
      FetchCalled 1 ''/b'' 1 [(''Accept'', ''text/fragment+html'')]]"
    by (simp add: fetchResult_def lifecycle_defs page_defs)
  have "one_request_throughout (trace (run [FetchResult 1 ''/a'', Connected 1, FetchResult 1 ''/b'']
      (initial_world page markup)))"
    by (rule fetchResult_aborts_previous_first
      [THEN conjunct2, THEN conjunct2, THEN conjunct2])
  then show "one_request_throughout
     [FetchCalled 1 ''/a'' 0 [(''Accept'', ''text/fragment+html'')], Constructed 0 1, Aborted 0,
      FetchCalled 1 ''/b'' 1 [(''Accept'', ''text/fragment+html'')]]"
    unfolding e .
qed

section \<open>Replacing the policy while a call is in flight\<close>

text \<open>
  C5. The claim: a call in flight completes with the policy reference captured at its
  own start. The code captures nothing at the start: it reads the policy variable when
  its fetch has settled. With the upper-casing policy installed when the call starts and
  the policy set to null before the response arrives, the call fulfils with the plain
  text and not with the conversion of the policy it started under.
\<close>

theorem policy_replaced_in_flight_counterexample:
  "cspTrustedTypesPolicyPromise sanitizing = Some (Fulfilled upper_policy) \<and>
   fst (run_ticks [SetPolicy None, FetchSettles (Inr hello_response), Resume, Resume]
      (fetchResult 1 ''/search'' sanitizing)) = Settled (Inr (PlainString ''hello'')) \<and>
   fst (run_ticks [SetPolicy None, FetchSettles (Inr hello_response), Resume, Resume]
      (fetchResult 1 ''/search'' sanitizing)) \<noteq>
     Settled (createHTML upper_policy ''hello'' hello_response)"
proof -
  obtain w0 where f:
    "fetchResult 1 ''/search'' sanitizing = (AwaitFetch (controllers sanitizing), w0)"
    using fetchResult_pair by blast
  show ?thesis
    unfolding f
    by (simp add: after_fetch_def sanitizing_def setCSPTrustedTypesPolicy_def
      upper_policy_def hello_response_def ok_def)
qed

text \<open>
  C5, amended. A call in flight uses the policy reference that the policy variable
  holds at the moment its fetch settles. For an ok response with text \<open>t\<close>: if the
  variable then holds a promise fulfilled with a policy, the call settles with that
  policy's conversion of \<open>t\<close>, and if it then holds null, the call fulfils with the plain
  text, whatever replacements of the policy follow. The value the variable holds at that
  moment is the one of the last replacement made before it, and the value at the start
  of the call when there was none: a replacement made while the call awaits the network
  does affect the call, a later one does not.
\<close>

theorem in_flight_call_reads_policy_when_fetch_settles:
  assumes "\<forall>t \<in> set pre. \<not> is_FetchSettles t" "ok res" "body res = Inr t"
  shows
  "(cspTrustedTypesPolicyPromise (snd (run_ticks pre (fetchResult h url w))) =
        Some (Fulfilled pol) \<and> 2 \<le> length (filter is_Resume post) \<longrightarrow>
      fst (run_ticks (pre @ FetchSettles (Inr res) # post) (fetchResult h url w)) =
        Settled (createHTML pol t res)) \<and>
   (cspTrustedTypesPolicyPromise (snd (run_ticks pre (fetchResult h url w))) = None \<and>
        1 \<le> length (filter is_Resume post) \<longrightarrow>
      fst (run_ticks (pre @ FetchSettles (Inr res) # post) (fetchResult h url w)) =
        Settled (Inr (PlainString t))) \<and>
   cspTrustedTypesPolicyPromise (snd (run_ticks (pre @ [SetPolicy p]) (fetchResult h url w))) =
     (case p of None \<Rightarrow> None | Some a \<Rightarrow> Some (Promise_resolve a)) \<and>
   ((\<forall>t \<in> set pre. \<not> is_SetPolicy t) \<longrightarrow>
      cspTrustedTypesPolicyPromise (snd (run_ticks pre (fetchResult h url w))) =
        cspTrustedTypesPolicyPromise w)"
proof -
  obtain w0 where f: "fetchResult h url w = (AwaitFetch (controllers w), w0)"
    using fetchResult_pair by blast
  have w0: "cspTrustedTypesPolicyPromise w0 = cspTrustedTypesPolicyPromise w"
    using fetchResult_policy [of h url w] unfolding f by simp
  let ?w1 = "snd (run_ticks pre (AwaitFetch (controllers w), w0))"
  note s = run_ticks_settles [OF assms(1), of "Inr res" post "controllers w" w0]
  have a: "fst (run_ticks (pre @ FetchSettles (Inr res) # post) (AwaitFetch (controllers w), w0)) =
        Settled (createHTML pol t res)"
    if "cspTrustedTypesPolicyPromise ?w1 = Some (Fulfilled pol)"
      "2 \<le> length (filter is_Resume post)"
    unfolding s using that(1) assms(2)
    by (simp add: after_fetch_def resume_twice_policy [OF assms(3) that(2)])
  have b: "fst (run_ticks (pre @ FetchSettles (Inr res) # post) (AwaitFetch (controllers w), w0)) =
        Settled (Inr (PlainString t))"
    if "cspTrustedTypesPolicyPromise ?w1 = None" "1 \<le> length (filter is_Resume post)"
    unfolding s using that(1) assms(2)
    by (simp add: after_fetch_def resume_once_text [OF assms(3) that(2)])
  have c: "cspTrustedTypesPolicyPromise ?w1 = cspTrustedTypesPolicyPromise w"
    if "\<forall>t \<in> set pre. \<not> is_SetPolicy t"
    using run_ticks_keeps_policy [OF that, of "AwaitFetch (controllers w)" w0] w0 by simp
  show ?thesis
    unfolding f using a b c by (simp only: run_ticks_last_policy) blast
qed

theorem in_flight_call_reads_policy_when_fetch_settles_witness:
  "\<not> is_FetchSettles (SetPolicy None) \<and> ok hello_response \<and>
   body hello_response = Inr ''hello'' \<and>
   cspTrustedTypesPolicyPromise sanitizing = Some (Fulfilled upper_policy) \<and>
   cspTrustedTypesPolicyPromise
     (snd (run_ticks [SetPolicy None] (fetchResult 1 ''/search'' sanitizing))) = None \<and>
   1 \<le> length (filter is_Resume [SetPolicy (Some (Direct upper_policy)), Resume]) \<and>
   fst (run_ticks ([SetPolicy None] @ FetchSettles (Inr hello_response) #
        [SetPolicy (Some (Direct upper_policy)), Resume])
      (fetchResult 1 ''/search'' sanitizing)) = Settled (Inr (PlainString ''hello''))"
proof -
  have a: "\<forall>t \<in> set [SetPolicy None]. \<not> is_FetchSettles t" by simp
  have o: "ok hello_response" and b: "body hello_response = Inr ''hello''"
    by (simp_all add: ok_def hello_response_def)
  have s: "cspTrustedTypesPolicyPromise sanitizing = Some (Fulfilled upper_policy)"
    by (simp add: sanitizing_def setCSPTrustedTypesPolicy_def)
  have n: "1 \<le> length (filter is_Resume [SetPolicy (Some (Direct upper_policy)), Resume])"
    by simp
  have a0: "\<forall>t \<in> set ([] :: tick list). \<not> is_FetchSettles t" by simp
  have v: "cspTrustedTypesPolicyPromise
     (snd (run_ticks [SetPolicy None] (fetchResult 1 ''/search'' sanitizing))) = None"
    using in_flight_call_reads_policy_when_fetch_settles [OF a0 o b, where h = 1 and url = "''/search''" and w = sanitizing
      and p = None, THEN conjunct2, THEN conjunct2, THEN conjunct1]
    by simp
  have r: "fst (run_ticks ([SetPolicy None] @ FetchSettles (Inr hello_response) #
        [SetPolicy (Some (Direct upper_policy)), Resume])
      (fetchResult 1 ''/search'' sanitizing)) = Settled (Inr (PlainString ''hello''))"
    by (rule in_flight_call_reads_policy_when_fetch_settles [OF a o b, THEN conjunct2, THEN conjunct1, THEN mp, OF conjI [OF v n]])
  show ?thesis
    using o b s v n r by (intro conjI) simp_all
qed

section \<open>Failed responses\<close>

text \<open>
  C6. When the fetch of a call settles with a response that is not ok (its status is
  outside 200 to 299) and whose \<^verbatim>\<open>text()\<close> gives \<open>t\<close>, the call rejects with an
  \<^verbatim>\<open>Error\<close> whose message is \<open>t\<close>. In particular a 404 response with body
  \<^verbatim>\<open>"not found"\<close> gives an error with message \<^verbatim>\<open>"not found"\<close>.
\<close>

theorem fetchResult_throws_body_of_failed_response:
  "(\<not> ok res \<and> body res = Inr t \<longrightarrow>
      fst (run_ticks [FetchSettles (Inr res), Resume] (fetchResult h url w)) =
        Settled (Inl (Error t))) \<and>
   fst (run_ticks [FetchSettles (Inr \<lparr>status = 404, body = Inr ''not found''\<rparr>), Resume]
      (fetchResult h url w)) = Settled (Inl (Error ''not found''))"
proof -
  obtain w0 where f: "fetchResult h url w = (AwaitFetch (controllers w), w0)"
    using fetchResult_pair by blast
  show ?thesis unfolding f by (simp add: after_fetch_def ok_def)
qed

theorem fetchResult_throws_body_of_failed_response_witness:
  "\<not> ok unavailable_response \<and> body unavailable_response = Inr ''unavailable'' \<and>
   fst (run_ticks [FetchSettles (Inr unavailable_response), Resume]
      (fetchResult 1 ''/search'' sanitizing)) = Settled (Inl (Error ''unavailable''))"
proof -
  have a: "\<not> ok unavailable_response" "body unavailable_response = Inr ''unavailable''"
    by (simp_all add: ok_def unavailable_response_def)
  show ?thesis
    using a fetchResult_throws_body_of_failed_response
      [of unavailable_response "''unavailable''" 1 "''/search''" sanitizing]
    by simp
qed

section \<open>Successful responses\<close>

text \<open>
  C7. When the fetch of a call settles with an ok response whose \<^verbatim>\<open>text()\<close> gives
  \<open>t\<close>: if the policy variable holds a promise that fulfils with a policy, the call
  awaits that promise and then settles with what the policy's \<^verbatim>\<open>createHTML\<close> makes of
  \<open>t\<close> and the response; if the variable is null, as it is when the module is loaded
  and after the policy has been set to null, the call fulfils with the plain text \<open>t\<close>.
  With the upper-casing policy installed and the response text \<^verbatim>\<open>"hello"\<close>, the call
  fulfils with a value whose text conversion is \<^verbatim>\<open>"HELLO"\<close>.
\<close>

theorem fetchResult_converts_successful_response:
  "(ok res \<and> body res = Inr t \<longrightarrow>
      (cspTrustedTypesPolicyPromise w = Some (Fulfilled pol) \<longrightarrow>
         fst (run_ticks [FetchSettles (Inr res)] (fetchResult h url w)) =
           AwaitPolicy res (Fulfilled pol) \<and>
         fst (run_ticks [FetchSettles (Inr res), Resume, Resume] (fetchResult h url w)) =
           Settled (createHTML pol t res)) \<and>
      (cspTrustedTypesPolicyPromise w = None \<longrightarrow>
         fst (run_ticks [FetchSettles (Inr res), Resume] (fetchResult h url w)) =
           Settled (Inr (PlainString t)))) \<and>
   cspTrustedTypesPolicyPromise (initial_world d attrs) = None \<and>
   cspTrustedTypesPolicyPromise (setCSPTrustedTypesPolicy None w) = None \<and>
   cspTrustedTypesPolicyPromise (setCSPTrustedTypesPolicy (Some (Direct pol)) w) =
     Some (Fulfilled pol) \<and>
   (\<exists>v. fst (run_ticks [FetchSettles (Inr hello_response), Resume, Resume]
        (fetchResult h url (setCSPTrustedTypesPolicy (Some (Direct upper_policy)) w))) =
          Settled (Inr v) \<and> toString v = ''HELLO'')"
proof -
  obtain w0 where f: "fetchResult h url w = (AwaitFetch (controllers w), w0)"
    using fetchResult_pair by blast
  have p: "cspTrustedTypesPolicyPromise w0 = cspTrustedTypesPolicyPromise w"
    using fetchResult_policy [of h url w] by (simp add: f)
  let ?u = "setCSPTrustedTypesPolicy (Some (Direct upper_policy)) w"
  obtain u0 where g: "fetchResult h url ?u = (AwaitFetch (controllers ?u), u0)"
    using fetchResult_pair by blast
  have q: "cspTrustedTypesPolicyPromise u0 = Some (Fulfilled upper_policy)"
    using fetchResult_policy [of h url ?u] unfolding g
    by (simp add: setCSPTrustedTypesPolicy_def)
  show ?thesis
    unfolding f g
    by (simp add: after_fetch_def p q initial_world_def setCSPTrustedTypesPolicy_def
        upper_policy_def hello_response_def ok_def toUpperCase_hello)
qed

theorem fetchResult_converts_successful_response_witness:
  "ok hello_response \<and> body hello_response = Inr ''hello'' \<and>
   cspTrustedTypesPolicyPromise sanitizing = Some (Fulfilled upper_policy) \<and>
   fst (run_ticks [FetchSettles (Inr hello_response), Resume, Resume]
      (fetchResult 1 ''/search'' sanitizing)) = Settled (Inr (TrustedHTML ''HELLO'')) \<and>
   cspTrustedTypesPolicyPromise (initial_world page markup) = None \<and>
   fst (run_ticks [FetchSettles (Inr hello_response), Resume]
      (fetchResult 1 ''/search'' (initial_world page markup))) =
     Settled (Inr (PlainString ''hello''))"
proof -
  have a: "ok hello_response" "body hello_response = Inr ''hello''"
    by (simp_all add: ok_def hello_response_def)
  have s: "cspTrustedTypesPolicyPromise sanitizing = Some (Fulfilled upper_policy)"
    by (simp add: sanitizing_def setCSPTrustedTypesPolicy_def)
  have n: "cspTrustedTypesPolicyPromise (initial_world page markup) = None"
    by (simp add: initial_world_def)
  have c: "createHTML upper_policy ''hello'' hello_response = Inr (TrustedHTML ''HELLO'')"
    by (simp add: upper_policy_def toUpperCase_hello)
  show ?thesis
    using a s n c
      fetchResult_converts_successful_response
        [of hello_response "''hello''" sanitizing upper_policy 1 "''/search''"]
      fetchResult_converts_successful_response
        [of hello_response "''hello''" "initial_world page markup" upper_policy 1 "''/search''"]
    by simp
qed

section \<open>The reaction to \<^verbatim>\<open>value\<close>\<close>

text \<open>
  C8. The claim: a mutation of \<^verbatim>\<open>value\<close> on a host with a live engine writes a
  non-null new value into the engine's visible input and dispatches the notification with
  the visible input as related target. The code writes through the engine it read before
  the rebind check. On the page whose input has been replaced by element 4, the reaction
  destroys engine 0, constructs engine 1 bound to input 4 and associates it with the
  host, and then writes the new value into element 3, the input of the destroyed engine,
  and dispatches the notification with element 3 as related target; the visible input of
  the host and of its live engine is element 4, which is not written.
\<close>

theorem value_mutation_writes_stale_input:
  "trace (run [Connected 1, DocumentChanged page_input_replaced markup,
        AttributeChanged 1 ''value'' (Some ''abc'') (Some ''x'')] (initial_world page markup)) =
     [Constructed 0 1, Destroyed 0, Constructed 1 1, ValueWritten 3 ''x'',
      Dispatched 1 \<lparr>event_type = ''auto-complete-change'', bubbles = True, relatedTarget = 3\<rparr>] \<and>
   state (run [Connected 1, DocumentChanged page_input_replaced markup,
        AttributeChanged 1 ''value'' (Some ''abc'') (Some ''x'')] (initial_world page markup)) 1 =
     Some 1 \<and>
   input (engines (run [Connected 1, DocumentChanged page_input_replaced markup,
        AttributeChanged 1 ''value'' (Some ''abc'') (Some ''x'')] (initial_world page markup)) ! 1) =
     4 \<and>
   inputElement 1 (run [Connected 1, DocumentChanged page_input_replaced markup,
        AttributeChanged 1 ''value'' (Some ''abc'') (Some ''x'')] (initial_world page markup)) =
     Some 4 \<and>
   destroyed (engines (run [Connected 1, DocumentChanged page_input_replaced markup,
        AttributeChanged 1 ''value'' (Some ''abc'') (Some ''x'')] (initial_world page markup)) ! 0)"
  by (simp add: lifecycle_defs page_defs)

section \<open>Suppressed reactions\<close>

text \<open>
  C9. The attribute reaction does nothing when the old value equals the new value, or
  when no engine is associated with the host: it returns normally and the world is the
  one it started from, so no engine command is issued, no change notification is
  dispatched, and the host's fields and the association are as before.
\<close>

theorem attributeChanged_suppressed:
  "oldValue = newValue \<or> state w this = None \<Longrightarrow>
   attributeChangedCallback this name oldValue newValue w = (Normal, w)"
  by (auto simp add: attributeChangedCallback_def)

theorem attributeChanged_suppressed_witness:
  "attributeChangedCallback 1 ''value'' (Some ''abc'') (Some ''abc'') wired = (Normal, wired) \<and>
   state (initial_world page markup) 1 = None \<and>
   attributeChangedCallback 1 ''open'' None (Some []) (initial_world page markup) =
     (Normal, initial_world page markup)"
proof -
  have a: "state (initial_world page markup) 1 = None"
    by (simp add: initial_world_def)
  show ?thesis
    using a
      attributeChanged_suppressed [of "Some ''abc''" "Some ''abc''" wired 1 "''value''"]
      attributeChanged_suppressed [of None "Some []" "initial_world page markup" 1 "''open''"]
    by simp
qed

section \<open>The property getters\<close>

text \<open>
  C10. The \<^verbatim>\<open>value\<close>, \<^verbatim>\<open>dataValue\<close> and \<^verbatim>\<open>src\<close> getters return the empty string when
  their attribute (\<^verbatim>\<open>value\<close>, \<^verbatim>\<open>data-value\<close>, \<^verbatim>\<open>src\<close>) is absent, and the attribute's
  string when it is present.
\<close>

theorem getters_default_to_empty:
  "(getAttribute this ''value'' w = None \<longrightarrow> get_value this w = []) \<and>
   (getAttribute this ''value'' w = Some s \<longrightarrow> get_value this w = s) \<and>
   (getAttribute this ''data-value'' w = None \<longrightarrow> get_dataValue this w = []) \<and>
   (getAttribute this ''data-value'' w = Some s \<longrightarrow> get_dataValue this w = s) \<and>
   (getAttribute this ''src'' w = None \<longrightarrow> get_src this w = []) \<and>
   (getAttribute this ''src'' w = Some s \<longrightarrow> get_src this w = s)"
  by (simp add: get_value_def get_dataValue_def get_src_def or_empty_def)

theorem getters_default_to_empty_witness:
  "getAttribute 1 ''value'' (initial_world page markup) = Some ''abc'' \<and>
   get_value 1 (initial_world page markup) = ''abc'' \<and>
   getAttribute 1 ''data-value'' (initial_world page markup) = None \<and>
   get_dataValue 1 (initial_world page markup) = [] \<and>
   getAttribute 1 ''src'' (initial_world page markup) = None \<and>
   get_src 1 (initial_world page markup) = []"
proof -
  have v: "getAttribute 1 ''value'' (initial_world page markup) = Some ''abc''"
    by (simp add: getAttribute_def initial_world_def markup_def)
  have d: "getAttribute 1 ''data-value'' (initial_world page markup) = None"
    by (simp add: getAttribute_def initial_world_def markup_def)
  have s: "getAttribute 1 ''src'' (initial_world page markup) = None"
    by (simp add: getAttribute_def initial_world_def markup_def)
  show ?thesis
    using v d s
      getters_default_to_empty [of 1 "initial_world page markup" "''abc''"]
    by simp
qed

end
